theory Spec2Isabelle
  imports Complex_Main
begin

section \<open>Values of the host language\<close>

text \<open>
  The harness is TypeScript. Examples, rollout inputs, rollout outputs and thrown values
  have type \<^verbatim>\<open>any\<close>; the code only stores them, tests them for truthiness and reads
  a few properties of them. A number is only stored and printed, never computed with.
\<close>

type_synonym number = real

datatype jsval =
    JUndefined
  | JNull
  | JBool bool
  | JNum number
  | JStr string
  | JObj "(string \<times> jsval) list"

text \<open>The truthiness test behind \<^verbatim>\<open>a || b\<close> and \<^verbatim>\<open>if (a)\<close>.\<close>

fun truthy :: "jsval \<Rightarrow> bool" where
  "truthy JUndefined = False"
| "truthy JNull = False"
| "truthy (JBool b) = b"
| "truthy (JNum n) = (n \<noteq> 0)"
| "truthy (JStr s) = (s \<noteq> [])"
| "truthy (JObj fs) = True"

text \<open>\<^verbatim>\<open>a || b\<close>\<close>

definition js_or :: "jsval \<Rightarrow> jsval \<Rightarrow> jsval" where
  "js_or a b = (if truthy a then a else b)"

type_synonym Example = "(string \<times> jsval) list"

text \<open>
  A value that reaches a \<^verbatim>\<open>catch (e: any)\<close> clause. JavaScript lets any value be
  thrown, \<^verbatim>\<open>undefined\<close> and \<^verbatim>\<open>null\<close> included (\<^verbatim>\<open>Promise.reject()\<close> rejects with
  \<^verbatim>\<open>undefined\<close>). Every other thrown value is represented by what the handlers of this
  program read from it: its \<^verbatim>\<open>name\<close>, \<^verbatim>\<open>message\<close> and \<^verbatim>\<open>stack\<close> properties
  (\<open>JUndefined\<close> where it has none) and the string \<^verbatim>\<open>String(e)\<close> converts it to.
\<close>

datatype nullish = Undefined | Null

datatype thrown =
    ThrownNullish nullish
  | ThrownValue (e_name: jsval) (e_message: jsval) (e_stack: jsval) (e_String: string)

text \<open>
  The engine's own errors: for reading a property of \<^verbatim>\<open>undefined\<close> or
  \<^verbatim>\<open>null\<close> (which value was read from, and which property), for creating a
  property on a string in strict code (which property, on which string), and for calling
  a property that holds no function (which property).
\<close>

datatype rejection =
    TypeError nullish string
  | TypeErrorCreate string string
  | TypeErrorNotFunction string

text \<open>\<^verbatim>\<open>new Error(msg)\<close>: the stack text starts with the string form of the error.\<close>

definition Error_new :: "string \<Rightarrow> thrown" where
  "Error_new msg =
     ThrownValue (JStr ''Error'') (JStr msg) (JStr (''Error: '' @ msg)) (''Error: '' @ msg)"

text \<open>The same for a \<^verbatim>\<open>TypeError\<close> that the engine throws inside a \<^verbatim>\<open>try\<close> block.\<close>

definition TypeError_new :: "string \<Rightarrow> thrown" where
  "TypeError_new msg =
     ThrownValue (JStr ''TypeError'') (JStr msg) (JStr (''TypeError: '' @ msg))
       (''TypeError: '' @ msg)"

text \<open>The property read \<^verbatim>\<open>e.p\<close> for \<open>p\<close> one of name, message, stack.\<close>

definition read_name :: "thrown \<Rightarrow> rejection + jsval" where
  "read_name e = (case e of
       ThrownNullish n \<Rightarrow> Inl (TypeError n ''name'')
     | ThrownValue nm msg stk str \<Rightarrow> Inr nm)"

definition read_message :: "thrown \<Rightarrow> rejection + jsval" where
  "read_message e = (case e of
       ThrownNullish n \<Rightarrow> Inl (TypeError n ''message'')
     | ThrownValue nm msg stk str \<Rightarrow> Inr msg)"

definition read_stack :: "thrown \<Rightarrow> rejection + jsval" where
  "read_stack e = (case e of
       ThrownNullish n \<Rightarrow> Inl (TypeError n ''stack'')
     | ThrownValue nm msg stk str \<Rightarrow> Inr stk)"

text \<open>\<^verbatim>\<open>String(e)\<close>, which also converts \<^verbatim>\<open>undefined\<close> and \<^verbatim>\<open>null\<close>.\<close>

definition String_of :: "thrown \<Rightarrow> string" where
  "String_of e = (case e of
       ThrownNullish Undefined \<Rightarrow> ''undefined''
     | ThrownNullish Null \<Rightarrow> ''null''
     | ThrownValue nm msg stk str \<Rightarrow> str)"

section \<open>The data model (models.ts)\<close>

record Prediction =
  pr_output :: jsval
  errorType :: jsval
  errorMessage :: jsval
  errorTraceback :: jsval

record TraceEntry =
  predictor :: string
  te_input :: jsval
  te_output :: jsval
  te_errorType :: jsval
  te_errorMessage :: jsval
  te_errorTraceback :: jsval

record ScoreWFeedback =
  score :: number
  feedback :: string

record Trace =
  example_ind :: nat
  example :: Example
  prediction :: Prediction
  trace :: "TraceEntry list"
  tr_score :: ScoreWFeedback

record Predict =
  name :: string
  instructions :: string

text \<open>
  What a metric function hands back: a bare number, or a score with an optional feedback
  text (\<^verbatim>\<open>ScoreWFeedback | number\<close>). A metric that throws, or whose promise rejects, is
  \<open>Inl\<close>. Its last three parameters are optional (\<open>None\<close>: not passed).
\<close>

datatype metric_value = Bare number | Scored number "string option"

type_synonym MetricFunction =
  "Example \<Rightarrow> Prediction \<Rightarrow> TraceEntry list option \<Rightarrow> string option \<Rightarrow>
   TraceEntry list option \<Rightarrow> thrown + metric_value"

record RunResult =
  rr_prediction :: Prediction
  rr_trace :: "TraceEntry list"

section \<open>The program object (class Module)\<close>

text \<open>
  Predictor objects live in a heap and are shared: the constructor stores the same object
  under \<^verbatim>\<open>this._predictors[name]\<close> and under \<^verbatim>\<open>this[name]\<close>, and the host's forward
  closure holds it too. An address is an index into the heap. A property of the table
  \<^verbatim>\<open>_predictors\<close> holds a reference to a predictor; the table being an ordinary object,
  a write can also leave a string in it.
\<close>

type_synonym addr = nat

datatype tblval = PredRef addr | StrVal string

text \<open>
  The host's forward logic is taken as a function of the predictor objects it closes over
  and of the rollout input: the trace entries its predictor calls pushed to the store of
  the rollout, in order, and how it ended (\<open>Inl\<close>: it threw, or its promise rejected).
\<close>

type_synonym ForwardFn =
  "Predict list \<Rightarrow> Example \<Rightarrow> TraceEntry list \<times> (thrown + jsval)"

text \<open>
  Besides the program object itself, the state holds what the code can write on the two
  prototype objects it inherits from: a property \<^verbatim>\<open>instructions\<close> of
  \<^verbatim>\<open>Module.prototype\<close> and one of \<^verbatim>\<open>Object.prototype\<close> (\<open>None\<close>: no such property).
\<close>

record Module =
  heap :: "Predict list"
  predictors :: "(string \<times> tblval) list"
  members :: "(string \<times> addr) list"
  forward_fn :: "ForwardFn option"
  class_instructions :: "string option"
  object_instructions :: "string option"

text \<open>
  The constructor: \<^verbatim>\<open>predictor.name = name; this[name] = predictor\<close> for each entry
  of the record it is given, in order, then \<^verbatim>\<open>this._forward = forward\<close>. The model
  covers programs whose predictors are distinct objects, none of them named
  \<^verbatim>\<open>_predictors\<close> or \<^verbatim>\<open>__proto__\<close>.
\<close>

definition Module_new :: "(string \<times> Predict) list \<Rightarrow> ForwardFn option \<Rightarrow> Module" where
  "Module_new ps fwd =
     \<lparr>heap = map (\<lambda>(nm, p). p\<lparr>name := nm\<rparr>) ps,
      predictors = zip (map fst ps) (map PredRef [0..<length ps]),
      members = zip (map fst ps) [0..<length ps],
      forward_fn = fwd,
      class_instructions = None,
      object_instructions = None\<rparr>"

subsection \<open>Property lookup on the program object\<close>

text \<open>
  \<^verbatim>\<open>this[name]\<close> finds an own property first: \<^verbatim>\<open>_forward\<close> (assigned last by the
  constructor), a predictor stored under its name (which shadows a method of the same
  name), the table \<^verbatim>\<open>_predictors\<close>. Then come the methods of the class and of
  \<^verbatim>\<open>Object.prototype\<close>, which are functions, the accessor \<^verbatim>\<open>__proto__\<close>, which yields
  \<^verbatim>\<open>Module.prototype\<close>, and a string \<^verbatim>\<open>instructions\<close> that an earlier write left on
  \<^verbatim>\<open>Module.prototype\<close> or, behind it, on \<^verbatim>\<open>Object.prototype\<close>.
\<close>

definition module_methods :: "string list" where
  "module_methods =
     [''constructor'', ''clone'', ''save'', ''load'', ''setForward'', ''forward'', ''run'',
      ''evaluate'']"

definition object_methods :: "string list" where
  "object_methods =
     [''constructor'', ''hasOwnProperty'', ''isPrototypeOf'', ''propertyIsEnumerable'',
      ''toLocaleString'', ''toString'', ''valueOf'', ''__defineGetter__'',
      ''__defineSetter__'', ''__lookupGetter__'', ''__lookupSetter__'']"

datatype member =
    Absent | Fn | PredictObj addr | PredictorsTable | PrototypeObj | StringVal string

definition get_member :: "Module \<Rightarrow> string \<Rightarrow> member" where
  "get_member m nm =
     (if nm = ''_forward'' then (case forward_fn m of None \<Rightarrow> Absent | Some f \<Rightarrow> Fn)
      else case map_of (members m) nm of
        Some a \<Rightarrow> PredictObj a
      | None \<Rightarrow>
          if nm = ''_predictors'' then PredictorsTable
          else if nm \<in> set module_methods \<or> nm \<in> set object_methods then Fn
          else if nm = ''__proto__'' then PrototypeObj
          else if nm = ''instructions'' then
            (case class_instructions m of
               Some s \<Rightarrow> StringVal s
             | None \<Rightarrow>
                 (case object_instructions m of Some s \<Rightarrow> StringVal s | None \<Rightarrow> Absent))
          else Absent)"

subsection \<open>Module.forward and Module.run\<close>

text \<open>
  The call \<^verbatim>\<open>this.forward(inputs)\<close> that \<^verbatim>\<open>run\<close> makes inside its \<^verbatim>\<open>try\<close> block.
  When a predictor stored under the name \<^verbatim>\<open>forward\<close> shadows the method, the call
  itself throws a TypeError; otherwise the body of \<^verbatim>\<open>Module.forward\<close> runs.
\<close>

definition forward :: "Module \<Rightarrow> Example \<Rightarrow> TraceEntry list \<times> (thrown + jsval)" where
  "forward m inputs =
     (if get_member m ''forward'' = Fn then
        (case forward_fn m of
           None \<Rightarrow> ([], Inl (Error_new ''Forward function is not set''))
         | Some f \<Rightarrow> f (heap m) inputs)
      else ([], Inl (TypeError_new ''this.forward is not a function'')))"

text \<open>
  \<^verbatim>\<open>Module.run\<close>. The fresh array \<^verbatim>\<open>trace\<close> is the store of this rollout alone; what
  forward's predictor calls pushed to it is returned on both paths. The catch clause reads
  \<^verbatim>\<open>e.name\<close>, \<^verbatim>\<open>e.message\<close> and \<^verbatim>\<open>e.stack\<close> in this order, outside any further
  handler: a \<^verbatim>\<open>TypeError\<close> raised there rejects the promise \<^verbatim>\<open>run\<close> returned.
\<close>

definition run :: "Module \<Rightarrow> Example \<Rightarrow> rejection + RunResult" where
  "run m inputs =
     (let (trace, outcome) = forward m inputs in
      case outcome of
        Inr out \<Rightarrow>
          Inr \<lparr>rr_prediction =
                 \<lparr>pr_output = out, errorType = JNull, errorMessage = JNull,
                  errorTraceback = JNull\<rparr>,
               rr_trace = trace\<rparr>
      | Inl e \<Rightarrow>
          (case read_name e of Inl r \<Rightarrow> Inl r | Inr nm \<Rightarrow>
           case read_message e of Inl r \<Rightarrow> Inl r | Inr msg \<Rightarrow>
           case read_stack e of Inl r \<Rightarrow> Inl r | Inr stk \<Rightarrow>
             Inr \<lparr>rr_prediction =
                    \<lparr>pr_output = JNull,
                     errorType = js_or nm (JStr ''Error''),
                     errorMessage = js_or msg (JStr (String_of e)),
                     errorTraceback = js_or stk JNull\<rparr>,
                  rr_trace = trace\<rparr>))"

text \<open>The two sides of a Prediction.\<close>

definition success_side :: "Prediction \<Rightarrow> bool" where
  "success_side p \<longleftrightarrow>
     pr_output p \<noteq> JNull \<and> errorType p = JNull \<and> errorMessage p = JNull \<and>
     errorTraceback p = JNull"

definition failure_side :: "Prediction \<Rightarrow> bool" where
  "failure_side p \<longleftrightarrow>
     pr_output p = JNull \<and> errorType p \<noteq> JNull \<and> errorMessage p \<noteq> JNull"

subsection \<open>The two ways a candidate is applied\<close>

text \<open>The assignment \<^verbatim>\<open>obj[k] = v\<close> on the own properties of an object.\<close>

fun set_property :: "string \<Rightarrow> 'v \<Rightarrow> (string \<times> 'v) list \<Rightarrow> (string \<times> 'v) list" where
  "set_property k v [] = [(k, v)]"
| "set_property k v ((k', v') # rest) =
     (if k = k' then (k, v) # rest else (k', v') # set_property k v rest)"

text \<open>\<^verbatim>\<open>predictor.instructions = prompt\<close> on the predictor object at an address.\<close>

definition set_instructions :: "addr \<Rightarrow> string \<Rightarrow> Module \<Rightarrow> Module" where
  "set_instructions a prompt m =
     m\<lparr>heap := (heap m)[a := (heap m ! a)\<lparr>instructions := prompt\<rparr>]\<rparr>"

text \<open>
  Step 1 of \<^verbatim>\<open>Module.evaluate\<close> (\<^verbatim>\<open>// 1. Update candidate prompts\<close>): for each entry
  of the candidate, \<^verbatim>\<open>if (this[name] && typeof this[name] !== "function")
  this[name].instructions = prompt\<close>. The class body is strict code: the assignment on a
  non-empty string throws a TypeError, and the loop stops there with what it wrote before.
  The result is the program as the loop left it and the error, if any.
\<close>

fun update_candidate_prompts ::
  "Module \<Rightarrow> (string \<times> string) list \<Rightarrow> Module \<times> rejection option" where
  "update_candidate_prompts m [] = (m, None)"
| "update_candidate_prompts m ((nm, prompt) # rest) =
     (case get_member m nm of
        Absent \<Rightarrow> update_candidate_prompts m rest
      | Fn \<Rightarrow> update_candidate_prompts m rest
      | PredictObj a \<Rightarrow> update_candidate_prompts (set_instructions a prompt m) rest
      | PredictorsTable \<Rightarrow>
          update_candidate_prompts
            (m\<lparr>predictors := set_property ''instructions'' (StrVal prompt) (predictors m)\<rparr>)
            rest
      | PrototypeObj \<Rightarrow>
          update_candidate_prompts (m\<lparr>class_instructions := Some prompt\<rparr>) rest
      | StringVal s \<Rightarrow>
          if s = [] then update_candidate_prompts m rest
          else (m, Some (TypeErrorCreate ''instructions'' s)))"

text \<open>
  The same step on the finalize path of \<^verbatim>\<open>Teleprompt.compile\<close> and in
  \<^verbatim>\<open>Module.load\<close> goes through the table:
  \<^verbatim>\<open>if (student._predictors[name]) student._predictors[name].instructions = prompt\<close>.
  The table is a plain object. A name it does not own can resolve to a method of
  \<^verbatim>\<open>Object.prototype\<close> (truthy; the write lands on that function object), to
  \<^verbatim>\<open>Object.prototype\<close> itself through \<^verbatim>\<open>__proto__\<close> (the write creates
  \<^verbatim>\<open>Object.prototype.instructions\<close>), or to that inherited string. The code is a module,
  hence strict: assigning a property of a non-empty string throws a TypeError.
\<close>

datatype tbl_member = TAbsent | TFn | TPredict addr | TString string | TPrototype

definition get_predictor :: "Module \<Rightarrow> string \<Rightarrow> tbl_member" where
  "get_predictor m nm =
     (case map_of (predictors m) nm of
        Some (PredRef a) \<Rightarrow> TPredict a
      | Some (StrVal s) \<Rightarrow> TString s
      | None \<Rightarrow>
          if nm \<in> set object_methods then TFn
          else if nm = ''__proto__'' then TPrototype
          else if nm = ''instructions'' then
            (case object_instructions m of Some s \<Rightarrow> TString s | None \<Rightarrow> TAbsent)
          else TAbsent)"

text \<open>
  The loop stops at the entry that throws; what it wrote before stays written. The result
  is the program as the loop left it and the error, if any.
\<close>

fun update_student :: "Module \<Rightarrow> (string \<times> string) list \<Rightarrow> Module \<times> rejection option" where
  "update_student m [] = (m, None)"
| "update_student m ((nm, prompt) # rest) =
     (case get_predictor m nm of
        TAbsent \<Rightarrow> update_student m rest
      | TFn \<Rightarrow> update_student m rest
      | TPredict a \<Rightarrow> update_student (set_instructions a prompt m) rest
      | TString s \<Rightarrow>
          if s = [] then update_student m rest
          else (m, Some (TypeErrorCreate ''instructions'' s))
      | TPrototype \<Rightarrow> update_student (m\<lparr>object_instructions := Some prompt\<rparr>) rest)"

section \<open>The batch evaluator (Module.evaluate)\<close>

record EvaluationBatch =
  outputs :: "Prediction option list"
  scores :: "number option list"
  trajectories :: "Trace option list"

text \<open>
  What the worker closure captures: the program after step 1, the batch, the flag, the
  metric and the optional input mapper. Printing a number inside a template literal is the
  host's, taken as \<open>env_fmt\<close>.
\<close>

record env =
  env_module :: Module
  env_batch :: "Example list"
  env_capture_traces :: bool
  env_metric :: MetricFunction
  env_getInputs :: "(Example \<Rightarrow> Example) option"
  env_fmt :: "number \<Rightarrow> string"

definition score_text :: "(number \<Rightarrow> string) \<Rightarrow> number \<Rightarrow> string" where
  "score_text fmt v = ''This trajectory got a score of '' @ fmt v @ ''.''"

text \<open>
  The try/catch around the metric call: a bare number and a missing feedback get the
  standard text, a failure of the metric gets the zero score.
\<close>

definition normalize_score :: "(number \<Rightarrow> string) \<Rightarrow> metric_value \<Rightarrow> ScoreWFeedback" where
  "normalize_score fmt v = (case v of
       Bare x \<Rightarrow> \<lparr>score = x, feedback = score_text fmt x\<rparr>
     | Scored x fb \<Rightarrow>
         \<lparr>score = x, feedback = (case fb of Some t \<Rightarrow> t | None \<Rightarrow> score_text fmt x)\<rparr>)"

definition metric_result :: "(number \<Rightarrow> string) \<Rightarrow> thrown + metric_value \<Rightarrow> ScoreWFeedback" where
  "metric_result fmt r = (case r of
       Inr v \<Rightarrow> normalize_score fmt v
     | Inl e \<Rightarrow> \<lparr>score = 0, feedback = ''Metric evaluation failed.''\<rparr>)"

text \<open>
  The call \<^verbatim>\<open>this.run(inputs)\<close> of a worker. When a predictor stored under the name
  \<^verbatim>\<open>run\<close> shadows the method, the call throws a TypeError.
\<close>

definition call_run :: "Module \<Rightarrow> Example \<Rightarrow> rejection + RunResult" where
  "call_run m inputs =
     (if get_member m ''run'' = Fn then run m inputs
      else Inl (TypeErrorNotFunction ''run''))"

text \<open>
  One iteration of a worker for a claimed index, up to the writes: the input, the rollout,
  the metric. A rollout that rejects is not caught here, nor is a call of \<^verbatim>\<open>this.run\<close>
  that throws: either way the worker's promise rejects.
\<close>

definition rollout :: "env \<Rightarrow> nat \<Rightarrow> rejection + (RunResult \<times> ScoreWFeedback)" where
  "rollout ev index =
     (let example = env_batch ev ! index;
          inputs = (case env_getInputs ev of Some g \<Rightarrow> g example | None \<Rightarrow> example)
      in case call_run (env_module ev) inputs of
           Inl r \<Rightarrow> Inl r
         | Inr runResult \<Rightarrow>
             Inr (runResult,
                  metric_result (env_fmt ev)
                    (env_metric ev example (rr_prediction runResult)
                       (Some (rr_trace runResult)) None None)))"

text \<open>
  The state the workers share: the cursor and the three arrays made by
  \<^verbatim>\<open>new Array(batch.length)\<close> (every slot a hole at first), and where each worker stands.
  \<open>claims\<close> is a log that the source does not keep: it records each execution of
  \<^verbatim>\<open>const index = currentIndex++\<close> as (worker, index), in order.
\<close>

datatype wstate = Idle | Awaiting nat | Finished

record pool =
  currentIndex :: nat
  outputs_arr :: "Prediction option list"
  scores_arr :: "number option list"
  trajectories_arr :: "Trace option list"
  workers :: "wstate list"
  claims :: "(nat \<times> nat) list"

definition finish :: "nat \<Rightarrow> pool \<Rightarrow> pool" where
  "finish w p = p\<lparr>workers := (workers p)[w := Finished]\<rparr>"

text \<open>
  The head of the worker's loop, run without suspension:
  \<^verbatim>\<open>while (currentIndex < batch.length) { const index = currentIndex++;
  if (index >= batch.length) break; ... await this.run(inputs)\<close>.
\<close>

definition claim_next :: "nat \<Rightarrow> nat \<Rightarrow> pool \<Rightarrow> pool" where
  "claim_next n w p =
     (if currentIndex p < n then
        (let index = currentIndex p;
             p' = p\<lparr>currentIndex := index + 1\<rparr>
         in if index \<ge> n then finish w p'
            else p'\<lparr>workers := (workers p')[w := Awaiting index],
                    claims := claims p' @ [(w, index)]\<rparr>)
      else finish w p)"

text \<open>
  The positional writes that end an iteration. The index was claimed below
  \<^verbatim>\<open>batch.length\<close>, so each write falls inside its array.
\<close>

definition write_results :: "env \<Rightarrow> nat \<Rightarrow> RunResult \<Rightarrow> ScoreWFeedback \<Rightarrow> pool \<Rightarrow> pool" where
  "write_results ev index runResult metricResult p =
     p\<lparr>outputs_arr := (outputs_arr p)[index := Some (rr_prediction runResult)],
       scores_arr := (scores_arr p)[index := Some (score metricResult)],
       trajectories_arr :=
         (if env_capture_traces ev then
            (trajectories_arr p)
              [index := Some \<lparr>example_ind = index, example = env_batch ev ! index,
                               prediction = rr_prediction runResult,
                               trace = rr_trace runResult,
                               tr_score = \<lparr>score = score metricResult,
                                           feedback = feedback metricResult\<rparr>\<rparr>]
          else trajectories_arr p)\<rparr>"

text \<open>
  A suspended worker resumes when its rollout and its metric call have settled. Between
  the two awaits of an iteration nothing shared is read or written, so the iteration is
  resumed once: it writes its three slots and goes back to the head of the loop. If the
  rollout rejected, the worker's promise rejects.
\<close>

definition settle :: "env \<Rightarrow> nat \<Rightarrow> pool \<Rightarrow> rejection + pool" where
  "settle ev w p = (case workers p ! w of
       Awaiting index \<Rightarrow>
         (case rollout ev index of
            Inl r \<Rightarrow> Inl r
          | Inr (runResult, metricResult) \<Rightarrow>
              Inr (claim_next (length (env_batch ev)) w
                     (write_results ev index runResult metricResult p)))
     | Idle \<Rightarrow> Inr p
     | Finished \<Rightarrow> Inr p)"

fun is_awaiting :: "wstate \<Rightarrow> bool" where
  "is_awaiting (Awaiting i) = True"
| "is_awaiting Idle = False"
| "is_awaiting Finished = False"

definition pending :: "pool \<Rightarrow> nat list" where
  "pending p = filter (\<lambda>w. is_awaiting (workers p ! w)) [0..<length (workers p)]"

text \<open>
  Which suspended worker resumes next is decided by the event loop, from the order in
  which the language-model calls of the rollouts complete. That order is the argument
  \<open>sched\<close>: its head picks among the suspended workers; an exhausted schedule picks the
  first.
  \<^verbatim>\<open>await Promise.all(workers)\<close> returns when no worker is suspended any more and throws
  as soon as one worker's promise rejects.
\<close>

definition pick :: "nat list \<Rightarrow> nat list \<Rightarrow> nat" where
  "pick sched ws = ws ! ((case sched of [] \<Rightarrow> 0 | s # rest \<Rightarrow> s) mod length ws)"

function drive :: "env \<Rightarrow> nat list \<Rightarrow> pool \<Rightarrow> rejection + pool" where
  "drive ev sched p =
     (if pending p = [] then Inr p
      else case settle ev (pick sched (pending p)) p of
             Inl r \<Rightarrow> Inl r
           | Inr p' \<Rightarrow> drive ev (tl sched) p')"
  by pat_completeness auto

lemma filter_update_count:
  "i < length xs \<Longrightarrow>
   length (filter P (xs[i := y])) + (if P (xs ! i) then 1 else 0) =
   length (filter P xs) + (if P y then 1 else 0)"
proof (induction xs arbitrary: i)
  case Nil
  then show ?case by simp
next
  case (Cons x xs)
  show ?case
  proof (cases i)
    case 0
    then show ?thesis by simp
  next
    case (Suc j)
    with Cons.prems have "j < length xs" by simp
    from Cons.IH [OF this] show ?thesis using Suc by simp
  qed
qed

lemma length_pending: "length (pending p) = length (filter is_awaiting (workers p))"
proof -
  have "filter is_awaiting (workers p) =
        filter is_awaiting (map (\<lambda>w. workers p ! w) [0..<length (workers p)])"
    by (simp add: map_nth)
  then show ?thesis
    by (simp add: pending_def filter_map o_def)
qed

lemma pick_in_set: "ws \<noteq> [] \<Longrightarrow> pick sched ws \<in> set ws"
  by (simp add: pick_def)

lemma pending_awaiting:
  "w \<in> set (pending p) \<Longrightarrow> w < length (workers p) \<and> is_awaiting (workers p ! w)"
  by (simp add: pending_def)

lemma write_results_frame [simp]:
  "workers (write_results ev i rr mr p) = workers p"
  "currentIndex (write_results ev i rr mr p) = currentIndex p"
  "claims (write_results ev i rr mr p) = claims p"
  by (simp_all add: write_results_def)

lemma claim_next_measure:
  assumes "w < length (workers p)" "is_awaiting (workers p ! w)"
  shows "(n - currentIndex (claim_next n w p)) + length (pending (claim_next n w p))
         < (n - currentIndex p) + length (pending p)"
proof (cases "currentIndex p < n")
  case True
  have "length (filter is_awaiting ((workers p)[w := Awaiting (currentIndex p)]))
        = length (filter is_awaiting (workers p))"
    using filter_update_count [OF assms(1), of is_awaiting "Awaiting (currentIndex p)"] assms(2)
    by simp
  with True show ?thesis
    by (simp add: claim_next_def Let_def length_pending)
next
  case False
  have "length (filter is_awaiting ((workers p)[w := Finished])) + 1
        = length (filter is_awaiting (workers p))"
    using filter_update_count [OF assms(1), of is_awaiting Finished] assms(2)
    by simp
  with False show ?thesis
    by (simp add: claim_next_def finish_def length_pending)
qed

lemma settle_measure:
  assumes "pending p \<noteq> []" "settle ev (pick sched (pending p)) p = Inr p'"
  shows "(length (env_batch ev) - currentIndex p') + length (pending p')
         < (length (env_batch ev) - currentIndex p) + length (pending p)"
proof -
  let ?w = "pick sched (pending p)"
  have w: "?w < length (workers p)" "is_awaiting (workers p ! ?w)"
    using pending_awaiting [OF pick_in_set [OF assms(1)]] by auto
  then obtain i where i: "workers p ! ?w = Awaiting i"
    by (cases "workers p ! ?w") auto
  from assms(2) i obtain rr mr where
    p': "p' = claim_next (length (env_batch ev)) ?w (write_results ev i rr mr p)"
    by (auto simp: settle_def split: sum.splits)
  have "length (pending (write_results ev i rr mr p)) = length (pending p)"
    by (simp add: length_pending)
  with claim_next_measure [of ?w "write_results ev i rr mr p" "length (env_batch ev)"] w i
  show ?thesis unfolding p' by simp
qed

text \<open>
  Every resumption either moves the cursor forward or retires a worker, so the pool always
  comes to rest.
\<close>

termination drive
  by (relation "measure (\<lambda>(ev, sched, p).
        (length (env_batch ev) - currentIndex p) + length (pending p))")
     (auto dest: settle_measure)

text \<open>
  \<^verbatim>\<open>Array.from({ length: numWorkers }).map(async () => ...)\<close> starts the workers one
  after the other; each runs to its first await before the next one starts.
\<close>

definition new_pool :: "nat \<Rightarrow> nat \<Rightarrow> pool" where
  "new_pool n numWorkers =
     \<lparr>currentIndex = 0, outputs_arr = replicate n None, scores_arr = replicate n None,
      trajectories_arr = replicate n None, workers = replicate numWorkers Idle,
      claims = []\<rparr>"

definition launch :: "nat \<Rightarrow> nat \<Rightarrow> pool" where
  "launch n numWorkers =
     foldl (\<lambda>p w. claim_next n w p) (new_pool n numWorkers) [0..<numWorkers]"

text \<open>
  \<^verbatim>\<open>Module.evaluate\<close>. The program object is mutated in place by step 1, so the result
  carries the program as it is afterwards. An error thrown by step 1 ends the call before
  any worker starts; a rejection of \<^verbatim>\<open>Promise.all\<close> is not caught.
\<close>

definition worker_env ::
  "(number \<Rightarrow> string) \<Rightarrow> Module \<Rightarrow> Example list \<Rightarrow> bool \<Rightarrow> MetricFunction \<Rightarrow>
   (Example \<Rightarrow> Example) option \<Rightarrow> env" where
  "worker_env fmt m batch capture_traces metric getInputs =
     \<lparr>env_module = m, env_batch = batch, env_capture_traces = capture_traces,
      env_metric = metric, env_getInputs = getInputs, env_fmt = fmt\<rparr>"

definition evaluate ::
  "nat list \<Rightarrow> (number \<Rightarrow> string) \<Rightarrow> Module \<Rightarrow> Example list \<Rightarrow> (string \<times> string) list \<Rightarrow>
   bool \<Rightarrow> nat \<Rightarrow> MetricFunction \<Rightarrow> (Example \<Rightarrow> Example) option \<Rightarrow>
   Module \<times> (rejection + EvaluationBatch)" where
  "evaluate sched fmt m batch candidate capture_traces numWorkers metric getInputs =
     (case update_candidate_prompts m candidate of
        (m', Some r) \<Rightarrow> (m', Inl r)
      | (m', None) \<Rightarrow>
          (let ev = worker_env fmt m' batch capture_traces metric getInputs
           in case drive ev sched (launch (length batch) numWorkers) of
                Inl r \<Rightarrow> (m', Inl r)
              | Inr p \<Rightarrow>
                  (m', Inr \<lparr>outputs = outputs_arr p, scores = scores_arr p,
                            trajectories =
                              (if capture_traces then trajectories_arr p else [])\<rparr>)))"

section \<open>Sample programs and inputs\<close>

text \<open>
  Forward logic that rejects with \<^verbatim>\<open>undefined\<close> (\<^verbatim>\<open>async () => Promise.reject()\<close>, or
  a timeout written \<^verbatim>\<open>setTimeout(reject, ms)\<close>), and forward logic that returns
  \<^verbatim>\<open>null\<close>.
\<close>

definition forward_rejecting_undefined :: ForwardFn where
  "forward_rejecting_undefined h inputs = ([], Inl (ThrownNullish Undefined))"

definition forward_returning_null :: ForwardFn where
  "forward_returning_null h inputs = ([], Inr JNull)"

text \<open>One predictor call that failed (the shim pushed its entry and rethrew).\<close>

definition failed_call :: TraceEntry where
  "failed_call =
     \<lparr>predictor = ''judge'', te_input = JStr ''ticket'', te_output = JStr [],
      te_errorType = JStr ''JSONParseError'', te_errorMessage = JStr ''bad json'',
      te_errorTraceback = JNull\<rparr>"

definition forward_failing_call :: ForwardFn where
  "forward_failing_call h inputs =
     ([failed_call],
      Inl (ThrownValue (JStr ''JSONParseError'') (JStr ''bad json'') JUndefined
             ''JSONParseError: bad json''))"

definition judge :: Predict where
  "judge = \<lparr>name = [], instructions = ''Classify the ticket.''\<rparr>"

text \<open>The samples only score 0 and 1; this prints those two.\<close>

definition print_number :: "number \<Rightarrow> string" where
  "print_number v = (if v = 0 then ''0'' else ''1'')"

definition metric_one :: MetricFunction where
  "metric_one gold pred tr pred_name pred_trace = Inr (Bare 1)"

definition ticket1 :: Example where "ticket1 = [(''ticket'', JStr ''cannot log in'')]"
definition ticket2 :: Example where "ticket2 = [(''ticket'', JStr ''where is my order'')]"

definition forward_returning_label :: ForwardFn where
  "forward_returning_label h inputs = ([], Inr (JStr ''account''))"

definition rejecting_program :: Module where
  "rejecting_program = Module_new [(''judge'', judge)] (Some forward_rejecting_undefined)"

definition returning_program :: Module where
  "returning_program = Module_new [(''judge'', judge)] (Some forward_returning_label)"

definition metric_failing_on_ticket1 :: MetricFunction where
  "metric_failing_on_ticket1 gold pred tr pred_name pred_trace =
     (if gold = ticket1 then Inl (Error_new ''no label'') else Inr (Bare 1))"

section \<open>Rollouts\<close>

lemma forward_method:
  "map_of (members m) ''forward'' = None \<Longrightarrow>
   forward m inputs =
     (case forward_fn m of
        None \<Rightarrow> ([], Inl (Error_new ''Forward function is not set''))
      | Some f \<Rightarrow> f (heap m) inputs)"
  by (simp add: forward_def get_member_def module_methods_def)

lemma call_run_method:
  "map_of (members m) ''run'' = None \<Longrightarrow> call_run m inputs = run m inputs"
  by (simp add: call_run_def get_member_def module_methods_def)

lemma truthy_not_null: "truthy v \<Longrightarrow> v \<noteq> JNull"
  by (cases v) auto

lemma js_or_not_null: "b \<noteq> JNull \<Longrightarrow> js_or a b \<noteq> JNull"
  by (auto simp: js_or_def dest: truthy_not_null)

lemma run_success:
  "forward m inputs = (tr, Inr out) \<Longrightarrow>
   run m inputs =
     Inr \<lparr>rr_prediction =
            \<lparr>pr_output = out, errorType = JNull, errorMessage = JNull, errorTraceback = JNull\<rparr>,
          rr_trace = tr\<rparr>"
  by (simp add: run_def)

lemma run_failure:
  "forward m inputs = (tr, Inl (ThrownValue nm msg stk str)) \<Longrightarrow>
   run m inputs =
     Inr \<lparr>rr_prediction =
            \<lparr>pr_output = JNull, errorType = js_or nm (JStr ''Error''),
             errorMessage = js_or msg (JStr str), errorTraceback = js_or stk JNull\<rparr>,
          rr_trace = tr\<rparr>"
  by (simp add: run_def read_name_def read_message_def read_stack_def String_of_def)

lemma run_nullish:
  "forward m inputs = (tr, Inl (ThrownNullish n)) \<Longrightarrow>
   run m inputs = Inl (TypeError n ''name'')"
  by (simp add: run_def read_name_def)

lemma run_cases:
  obtains (success) tr out where "forward m inputs = (tr, Inr out)"
  | (failure) tr nm msg stk str where "forward m inputs = (tr, Inl (ThrownValue nm msg stk str))"
  | (nullish) tr n where "forward m inputs = (tr, Inl (ThrownNullish n))"
proof (cases "forward m inputs")
  case (Pair tr outcome)
  show ?thesis
  proof (cases outcome)
    case (Inl e)
    then show ?thesis using Pair failure nullish by (cases e) auto
  next
    case (Inr out)
    then show ?thesis using Pair success by auto
  qed
qed

subsection \<open>What run returns\<close>

text \<open>
  Apart from a thrown \<^verbatim>\<open>undefined\<close> or \<^verbatim>\<open>null\<close>, every way forward can end gives a
  result: \<^verbatim>\<open>run\<close> returns, and it returns the trace forward left behind.
\<close>

lemma run_returns_unless_nullish:
  assumes "forward m inputs = (tr, outcome)"
    and "\<And>n. outcome \<noteq> Inl (ThrownNullish n)"
  shows "\<exists>p. run m inputs = Inr \<lparr>rr_prediction = p, rr_trace = tr\<rparr>"
proof (cases rule: run_cases [of m inputs])
  case (success tr' out)
  then show ?thesis using assms(1) by (simp add: run_success)
next
  case (failure tr' nm msg stk str)
  then show ?thesis using assms(1) by (simp add: run_failure)
next
  case (nullish tr' n)
  then show ?thesis using assms by simp
qed

text \<open>
  C6. \<^verbatim>\<open>Module.run\<close> is to turn every failure of forward into a failure Prediction and
  never let one reach its caller. It does so for thrown values other than
  \<^verbatim>\<open>undefined\<close> and \<^verbatim>\<open>null\<close> (\<open>run_returns_unless_nullish\<close>). When forward's promise
  rejects with \<^verbatim>\<open>undefined\<close>, the catch clause's own \<^verbatim>\<open>e.name\<close> raises a TypeError and
  \<^verbatim>\<open>run\<close> rejects: no Prediction and no trace reach the caller.
\<close>

theorem run_rejects_on_undefined:
  "run (Module_new [(''judge'', judge)] (Some forward_rejecting_undefined)) [] =
     Inl (TypeError Undefined ''name'')"
  by (simp add: run_def forward_method Module_new_def forward_rejecting_undefined_def
      read_name_def)

text \<open>
  C9 as stated fails: a forward that returns \<^verbatim>\<open>null\<close> gives a Prediction whose output
  and error fields are all null, so neither side is populated.
\<close>

theorem run_null_output_neither_side:
  "run (Module_new [(''judge'', judge)] (Some forward_returning_null)) [] =
     Inr \<lparr>rr_prediction =
            \<lparr>pr_output = JNull, errorType = JNull, errorMessage = JNull,
             errorTraceback = JNull\<rparr>,
          rr_trace = []\<rparr>
   \<and> \<not> success_side \<lparr>pr_output = JNull, errorType = JNull, errorMessage = JNull,
                      errorTraceback = JNull\<rparr>
   \<and> \<not> failure_side \<lparr>pr_output = JNull, errorType = JNull, errorMessage = JNull,
                      errorTraceback = JNull\<rparr>"
  by (simp add: run_def forward_method Module_new_def forward_returning_null_def
      success_side_def failure_side_def)

text \<open>
  C9, amended. A Prediction produced by \<^verbatim>\<open>Module.run\<close> never has both sides populated.
  When forward returned a value, the three error fields are null and the output is that
  value, so the success side is populated exactly when the value is not null. When forward
  threw, the output is null and error kind and message are set.
\<close>

theorem run_prediction_sides:
  assumes "run m inputs = Inr r"
  shows "\<not> (success_side (rr_prediction r) \<and> failure_side (rr_prediction r)) \<and>
         (case snd (forward m inputs) of
            Inr out \<Rightarrow>
              rr_prediction r =
                \<lparr>pr_output = out, errorType = JNull, errorMessage = JNull,
                 errorTraceback = JNull\<rparr> \<and>
              (success_side (rr_prediction r) \<longleftrightarrow> out \<noteq> JNull)
          | Inl e \<Rightarrow> failure_side (rr_prediction r))"
proof (cases rule: run_cases [of m inputs])
  case (success tr out)
  then show ?thesis using assms
    by (auto simp: run_success success_side_def failure_side_def)
next
  case (failure tr nm msg stk str)
  have "js_or nm (JStr ''Error'') \<noteq> JNull" "js_or msg (JStr str) \<noteq> JNull"
    by (simp_all add: js_or_not_null)
  then show ?thesis using assms failure
    by (auto simp: run_failure success_side_def failure_side_def)
next
  case (nullish tr n)
  then show ?thesis using assms by (simp add: run_nullish)
qed

theorem run_prediction_sides_witness:
  "run (Module_new [(''judge'', judge)] (Some forward_failing_call)) [] =
     Inr \<lparr>rr_prediction =
            \<lparr>pr_output = JNull, errorType = JStr ''JSONParseError'',
             errorMessage = JStr ''bad json'', errorTraceback = JNull\<rparr>,
          rr_trace = [failed_call]\<rparr>
   \<and> failure_side \<lparr>pr_output = JNull, errorType = JStr ''JSONParseError'',
                    errorMessage = JStr ''bad json'', errorTraceback = JNull\<rparr>
   \<and> \<not> success_side \<lparr>pr_output = JNull, errorType = JStr ''JSONParseError'',
                      errorMessage = JStr ''bad json'', errorTraceback = JNull\<rparr>"
proof -
  let ?m = "Module_new [(''judge'', judge)] (Some forward_failing_call)"
  let ?p = "\<lparr>pr_output = JNull, errorType = JStr ''JSONParseError'',
             errorMessage = JStr ''bad json'', errorTraceback = JNull\<rparr>"
  have fw: "forward ?m [] = ([failed_call],
      Inl (ThrownValue (JStr ''JSONParseError'') (JStr ''bad json'') JUndefined
             ''JSONParseError: bad json''))"
    by (simp add: forward_method Module_new_def forward_failing_call_def)
  have r: "run ?m [] = Inr \<lparr>rr_prediction = ?p, rr_trace = [failed_call]\<rparr>"
    by (simp add: run_failure [OF fw] js_or_def)
  from run_prediction_sides [OF r] fw show ?thesis
    using r by auto
qed

section \<open>The worker pool\<close>

subsection \<open>What holds of the pool at every suspension\<close>

text \<open>
  A slot is written when its index has been claimed and is no longer awaited by a worker;
  every other slot is a hole. No two workers await the same index. The log of claims is
  the sequence 0, 1, ... up to the cursor. A worker only finishes once the cursor has
  reached the end of the batch.
\<close>

definition awaited :: "pool \<Rightarrow> nat \<Rightarrow> bool" where
  "awaited p i \<longleftrightarrow> (\<exists>w<length (workers p). workers p ! w = Awaiting i)"

definition filled :: "env \<Rightarrow> nat \<Rightarrow> pool \<Rightarrow> bool" where
  "filled ev i p \<longleftrightarrow>
     (\<exists>rr mr. rollout ev i = Inr (rr, mr) \<and>
        outputs_arr p ! i = Some (rr_prediction rr) \<and>
        scores_arr p ! i = Some (score mr) \<and>
        trajectories_arr p ! i =
          (if env_capture_traces ev then
             Some \<lparr>example_ind = i, example = env_batch ev ! i,
                   prediction = rr_prediction rr, trace = rr_trace rr,
                   tr_score = \<lparr>score = score mr, feedback = feedback mr\<rparr>\<rparr>
           else None))"

definition hole :: "nat \<Rightarrow> pool \<Rightarrow> bool" where
  "hole i p \<longleftrightarrow>
     outputs_arr p ! i = None \<and> scores_arr p ! i = None \<and> trajectories_arr p ! i = None"

definition slots_ok :: "env \<Rightarrow> pool \<Rightarrow> bool" where
  "slots_ok ev p \<longleftrightarrow>
     (\<forall>i<length (env_batch ev).
        if i < currentIndex p \<and> \<not> awaited p i then filled ev i p else hole i p)"

definition arrays_sized :: "nat \<Rightarrow> pool \<Rightarrow> bool" where
  "arrays_sized n p \<longleftrightarrow>
     length (outputs_arr p) = n \<and> length (scores_arr p) = n \<and>
     length (trajectories_arr p) = n"

definition one_owner :: "pool \<Rightarrow> bool" where
  "one_owner p \<longleftrightarrow>
     (\<forall>w<length (workers p). \<forall>w'<length (workers p). \<forall>i.
        workers p ! w = Awaiting i \<and> workers p ! w' = Awaiting i \<longrightarrow> w = w')"

definition claims_ok :: "pool \<Rightarrow> bool" where
  "claims_ok p \<longleftrightarrow>
     map snd (claims p) = [0..<currentIndex p] \<and>
     (\<forall>c\<in>set (claims p). fst c < length (workers p))"

definition pool_inv :: "env \<Rightarrow> pool \<Rightarrow> bool" where
  "pool_inv ev p \<longleftrightarrow>
     arrays_sized (length (env_batch ev)) p \<and>
     currentIndex p \<le> length (env_batch ev) \<and>
     (\<forall>i. awaited p i \<longrightarrow> i < currentIndex p) \<and>
     one_owner p \<and>
     slots_ok ev p \<and>
     claims_ok p \<and>
     (Finished \<in> set (workers p) \<longrightarrow> currentIndex p = length (env_batch ev))"

definition retire :: "nat \<Rightarrow> pool \<Rightarrow> pool" where
  "retire w p = p\<lparr>workers := (workers p)[w := Idle]\<rparr>"

lemma claim_next_retire: "claim_next n w (retire w p) = claim_next n w p"
  by (simp add: claim_next_def retire_def finish_def Let_def)

lemma awaited_retire:
  assumes "one_owner p" "w < length (workers p)" "workers p ! w = Awaiting i"
    and wq: "workers q = workers p"
  shows "awaited (retire w q) j \<longleftrightarrow> awaited q j \<and> j \<noteq> i"
proof
  assume "awaited (retire w q) j"
  then obtain w' where w': "w' < length (workers p)" "((workers p)[w := Idle]) ! w' = Awaiting j"
    by (auto simp: awaited_def retire_def wq)
  then have ne: "w' \<noteq> w" using assms(2) by auto
  then have a: "workers p ! w' = Awaiting j" using w' by simp
  have "j \<noteq> i"
  proof
    assume "j = i"
    with a assms w'(1) have "w' = w" unfolding one_owner_def by blast
    with ne show False by simp
  qed
  with a w'(1) show "awaited q j \<and> j \<noteq> i" by (auto simp: awaited_def wq)
next
  assume "awaited q j \<and> j \<noteq> i"
  then obtain w' where w': "w' < length (workers p)" "workers p ! w' = Awaiting j" and ji: "j \<noteq> i"
    by (auto simp: awaited_def wq)
  then have "w' \<noteq> w" using assms(3) by auto
  with w' show "awaited (retire w q) j"
    by (auto simp: awaited_def retire_def wq)
qed

lemma retire_inv:
  assumes inv: "pool_inv ev p"
    and w: "w < length (workers p)" "workers p ! w = Awaiting i"
    and r: "rollout ev i = Inr (rr, mr)"
  shows "pool_inv ev (retire w (write_results ev i rr mr p))"
proof -
  let ?n = "length (env_batch ev)"
  let ?q = "write_results ev i rr mr p"
  let ?r = "retire w ?q"
  from inv have sized: "arrays_sized ?n p" and le: "currentIndex p \<le> ?n"
    and aw: "\<And>j. awaited p j \<Longrightarrow> j < currentIndex p" and own: "one_owner p"
    and slots: "slots_ok ev p" and cl: "claims_ok p"
    and fin: "Finished \<in> set (workers p) \<Longrightarrow> currentIndex p = ?n"
    by (auto simp: pool_inv_def)
  have awp: "awaited p i" using w by (auto simp: awaited_def)
  then have ilt: "i < currentIndex p" by (rule aw)
  with le have iln: "i < ?n" by simp
  have aw_r: "\<And>j. awaited ?r j \<longleftrightarrow> awaited p j \<and> j \<noteq> i"
    using awaited_retire [OF own w, of ?q] by (simp add: awaited_def)
  have 1: "arrays_sized ?n ?r"
    using sized by (simp add: arrays_sized_def retire_def write_results_def)
  have 2: "currentIndex ?r \<le> ?n" using le by (simp add: retire_def)
  have 3: "\<forall>j. awaited ?r j \<longrightarrow> j < currentIndex ?r"
    using aw aw_r by (simp add: retire_def)
  have 4: "one_owner ?r"
    using own w(1) unfolding one_owner_def retire_def
    by (simp add: nth_list_update)
  have 5: "slots_ok ev ?r"
    unfolding slots_ok_def
  proof (intro allI impI)
    fix j assume j: "j < ?n"
    show "if j < currentIndex ?r \<and> \<not> awaited ?r j then filled ev j ?r else hole j ?r"
    proof (cases "j = i")
      case True
      from slots iln awp have "hole i p" by (simp add: slots_ok_def)
      then have "filled ev i ?r"
        using r iln sized
        by (simp add: filled_def hole_def retire_def write_results_def arrays_sized_def)
      then show ?thesis using True ilt aw_r by (simp add: retire_def)
    next
      case False
      have f: "filled ev j ?r \<longleftrightarrow> filled ev j p"
        using False by (simp add: filled_def retire_def write_results_def)
      have h: "hole j ?r \<longleftrightarrow> hole j p"
        using False by (simp add: hole_def retire_def write_results_def)
      from slots j have "if j < currentIndex p \<and> \<not> awaited p j then filled ev j p else hole j p"
        by (simp add: slots_ok_def)
      then show ?thesis using False f h aw_r by (simp add: retire_def)
    qed
  qed
  have 6: "claims_ok ?r" using cl by (simp add: claims_ok_def retire_def)
  have 7: "Finished \<in> set (workers ?r) \<longrightarrow> currentIndex ?r = ?n"
  proof
    assume "Finished \<in> set (workers ?r)"
    then have "Finished \<in> insert Idle (set (workers p))"
      using set_update_subset_insert [of "workers p" w Idle] by (auto simp: retire_def)
    then show "currentIndex ?r = ?n" using fin by (simp add: retire_def)
  qed
  from 1 2 3 4 5 6 7 show ?thesis by (simp add: pool_inv_def)
qed


lemma claim_next_inv:
  assumes inv: "pool_inv ev p"
    and w: "w < length (workers p)" "workers p ! w = Idle"
  shows "pool_inv ev (claim_next (length (env_batch ev)) w p)"
proof -
  let ?n = "length (env_batch ev)"
  let ?c = "currentIndex p"
  from inv have sized: "arrays_sized ?n p" and le: "?c \<le> ?n"
    and aw: "\<And>j. awaited p j \<Longrightarrow> j < ?c" and own: "one_owner p"
    and slots: "slots_ok ev p" and cl: "claims_ok p"
    and fin: "Finished \<in> set (workers p) \<Longrightarrow> ?c = ?n"
    by (auto simp: pool_inv_def)
  show ?thesis
  proof (cases "?c < ?n")
    case True
    let ?p' = "p\<lparr>currentIndex := ?c + 1, workers := (workers p)[w := Awaiting ?c],
                  claims := claims p @ [(w, ?c)]\<rparr>"
    have eq: "claim_next ?n w p = ?p'"
      using True by (simp add: claim_next_def Let_def)
    have aw': "\<And>j. awaited ?p' j \<longleftrightarrow> awaited p j \<or> j = ?c"
    proof
      fix j assume "awaited ?p' j"
      then obtain v where v: "v < length (workers p)"
          "(workers p)[w := Awaiting ?c] ! v = Awaiting j"
        by (auto simp: awaited_def)
      show "awaited p j \<or> j = ?c"
      proof (cases "v = w")
        case True
        with v w(1) show ?thesis by simp
      next
        case False
        with v show ?thesis by (auto simp: awaited_def)
      qed
    next
      fix j assume "awaited p j \<or> j = ?c"
      then show "awaited ?p' j"
      proof
        assume "awaited p j"
        then obtain v where v: "v < length (workers p)" "workers p ! v = Awaiting j"
          by (auto simp: awaited_def)
        then have "v \<noteq> w" using w(2) by auto
        with v show ?thesis by (auto simp: awaited_def)
      next
        assume "j = ?c"
        with w(1) show ?thesis by (auto simp: awaited_def)
      qed
    qed
    have nc: "\<not> awaited p ?c" using aw [of ?c] by auto
    have 1: "arrays_sized ?n ?p'" using sized by (simp add: arrays_sized_def)
    have 2: "currentIndex ?p' \<le> ?n" using True by simp
    have 3: "\<forall>j. awaited ?p' j \<longrightarrow> j < currentIndex ?p'"
      using aw aw' by (auto simp: less_Suc_eq)
    have 4: "one_owner ?p'"
      unfolding one_owner_def
    proof (intro allI impI)
      fix v v' j
      assume v: "v < length (workers ?p')" and v': "v' < length (workers ?p')"
        and e: "workers ?p' ! v = Awaiting j \<and> workers ?p' ! v' = Awaiting j"
      show "v = v'"
      proof (cases "v = w \<or> v' = w")
        case True
        show ?thesis
        proof (rule ccontr)
          assume ne: "v \<noteq> v'"
          from True ne e v v' w(1) have "awaited p ?c"
            by (auto simp: awaited_def nth_list_update split: if_splits)
          with nc show False by simp
        qed
      next
        case False
        with e v v' own show ?thesis
          unfolding one_owner_def by (simp add: nth_list_update)
      qed
    qed
    have 5: "slots_ok ev ?p'"
      unfolding slots_ok_def
    proof (intro allI impI)
      fix j assume j: "j < ?n"
      from slots j have s: "if j < ?c \<and> \<not> awaited p j then filled ev j p else hole j p"
        by (simp add: slots_ok_def)
      have f: "filled ev j ?p' \<longleftrightarrow> filled ev j p" by (simp add: filled_def)
      have h: "hole j ?p' \<longleftrightarrow> hole j p" by (simp add: hole_def)
      show "if j < currentIndex ?p' \<and> \<not> awaited ?p' j then filled ev j ?p' else hole j ?p'"
        using s f h aw' [of j] by (auto simp: less_Suc_eq)
    qed
    have 6: "claims_ok ?p'" using cl w(1) by (auto simp: claims_ok_def)
    have 7: "Finished \<in> set (workers ?p') \<longrightarrow> currentIndex ?p' = ?n"
    proof
      assume "Finished \<in> set (workers ?p')"
      then have "Finished \<in> insert (Awaiting ?c) (set (workers p))"
        using set_update_subset_insert [of "workers p" w "Awaiting ?c"] by auto
      then have "?c = ?n" using fin by simp
      with True show "currentIndex ?p' = ?n" by simp
    qed
    from 1 2 3 4 5 6 7 show ?thesis unfolding eq by (simp add: pool_inv_def)
  next
    case False
    with le have cn: "?c = ?n" by simp
    let ?p' = "p\<lparr>workers := (workers p)[w := Finished]\<rparr>"
    have eq: "claim_next ?n w p = ?p'"
      using False by (simp add: claim_next_def finish_def)
    have aw': "\<And>j. awaited ?p' j \<longleftrightarrow> awaited p j"
    proof
      fix j assume "awaited ?p' j"
      then obtain v where v: "v < length (workers p)"
          "(workers p)[w := Finished] ! v = Awaiting j"
        by (auto simp: awaited_def)
      then have "v \<noteq> w" using w(1) by auto
      with v show "awaited p j" by (auto simp: awaited_def)
    next
      fix j assume "awaited p j"
      then obtain v where v: "v < length (workers p)" "workers p ! v = Awaiting j"
        by (auto simp: awaited_def)
      then have "v \<noteq> w" using w(2) by auto
      with v show "awaited ?p' j" by (auto simp: awaited_def)
    qed
    have 1: "arrays_sized ?n ?p'" using sized by (simp add: arrays_sized_def)
    have 3: "\<forall>j. awaited ?p' j \<longrightarrow> j < currentIndex ?p'" using aw aw' by simp
    have 4: "one_owner ?p'"
      using own w(1) unfolding one_owner_def by (simp add: nth_list_update)
    have f: "\<And>j. filled ev j ?p' \<longleftrightarrow> filled ev j p" by (simp add: filled_def)
    have h: "\<And>j. hole j ?p' \<longleftrightarrow> hole j p" by (simp add: hole_def)
    have 5: "slots_ok ev ?p'"
      using slots by (simp add: slots_ok_def f h aw')
    have 6: "claims_ok ?p'" using cl by (simp add: claims_ok_def)
    from 1 3 4 5 6 cn show ?thesis unfolding eq by (simp add: pool_inv_def)
  qed
qed

lemma settle_inv:
  assumes inv: "pool_inv ev p"
    and w: "w < length (workers p)" "is_awaiting (workers p ! w)"
    and s: "settle ev w p = Inr p'"
  shows "pool_inv ev p'"
proof -
  from w obtain i where i: "workers p ! w = Awaiting i"
    by (cases "workers p ! w") auto
  from s i obtain rr mr where r: "rollout ev i = Inr (rr, mr)"
    and p': "p' = claim_next (length (env_batch ev)) w (write_results ev i rr mr p)"
    by (auto simp: settle_def split: sum.splits)
  let ?q = "retire w (write_results ev i rr mr p)"
  have "pool_inv ev ?q" by (rule retire_inv [OF inv w(1) i r])
  moreover have "w < length (workers ?q)" "workers ?q ! w = Idle"
    using w(1) by (simp_all add: retire_def)
  ultimately have "pool_inv ev (claim_next (length (env_batch ev)) w ?q)"
    by (rule claim_next_inv)
  then show ?thesis by (simp add: p' claim_next_retire)
qed

lemma settle_no_idle:
  assumes "Idle \<notin> set (workers p)" "settle ev w p = Inr p'"
  shows "Idle \<notin> set (workers p')"
proof (cases "workers p ! w")
  case (Awaiting i)
  with assms(2) obtain rr mr where
    p': "p' = claim_next (length (env_batch ev)) w (write_results ev i rr mr p)"
    by (auto simp: settle_def split: sum.splits)
  have "set (workers p') \<subseteq> {Awaiting (currentIndex p), Finished} \<union> set (workers p)"
    unfolding p' using set_update_subset_insert [of "workers p" w]
    by (auto simp: claim_next_def finish_def Let_def)
  with assms(1) show ?thesis by auto
qed (use assms in \<open>auto simp: settle_def\<close>)

lemma settle_length:
  "settle ev w p = Inr p' \<Longrightarrow> length (workers p') = length (workers p)"
  by (auto simp: settle_def claim_next_def finish_def Let_def split: wstate.splits sum.splits)

lemma settle_rejects:
  assumes inv: "pool_inv ev p"
    and w: "w < length (workers p)"
    and s: "settle ev w p = Inl r"
  shows "\<exists>i<length (env_batch ev). rollout ev i = Inl r"
proof -
  from s obtain i where i: "workers p ! w = Awaiting i" and r: "rollout ev i = Inl r"
    by (auto simp: settle_def split: wstate.splits sum.splits)
  from i w have "awaited p i" by (auto simp: awaited_def)
  with inv have "i < length (env_batch ev)" by (force simp: pool_inv_def)
  with r show ?thesis by blast
qed

declare drive.simps [simp del]

lemma drive_rest: "pending p = [] \<Longrightarrow> drive ev sched p = Inr p"
  by (subst drive.simps) simp

lemma drive_step:
  "pending p \<noteq> [] \<Longrightarrow>
   drive ev sched p =
     (case settle ev (pick sched (pending p)) p of
        Inl r \<Rightarrow> Inl r
      | Inr p' \<Rightarrow> drive ev (tl sched) p')"
  by (subst drive.simps) simp

lemma drive_returns:
  assumes "pool_inv ev p" "Idle \<notin> set (workers p)" "drive ev sched p = Inr p'"
  shows "pool_inv ev p' \<and> Idle \<notin> set (workers p') \<and> pending p' = [] \<and>
         length (workers p') = length (workers p)"
  using assms
proof (induction ev sched p rule: drive.induct)
  case (1 ev sched p)
  show ?case
  proof (cases "pending p = []")
    case True
    with "1.prems" show ?thesis by (simp add: drive_rest)
  next
    case False
    let ?w = "pick sched (pending p)"
    have w: "?w < length (workers p)" "is_awaiting (workers p ! ?w)"
      using pending_awaiting [OF pick_in_set [OF False]] by auto
    from "1.prems"(3) obtain q where q: "settle ev ?w p = Inr q"
      and d: "drive ev (tl sched) q = Inr p'"
      unfolding drive_step [OF False] by (cases "settle ev ?w p") auto
    have "pool_inv ev q" by (rule settle_inv [OF "1.prems"(1) w q])
    moreover have "Idle \<notin> set (workers q)" by (rule settle_no_idle [OF "1.prems"(2) q])
    ultimately have "pool_inv ev p' \<and> Idle \<notin> set (workers p') \<and> pending p' = [] \<and>
         length (workers p') = length (workers q)"
      using "1.IH" [OF False q] d by simp
    then show ?thesis using settle_length [OF q] by simp
  qed
qed

lemma drive_rejects:
  assumes "pool_inv ev p" "drive ev sched p = Inl r"
  shows "\<exists>i<length (env_batch ev). rollout ev i = Inl r"
  using assms
proof (induction ev sched p rule: drive.induct)
  case (1 ev sched p)
  show ?case
  proof (cases "pending p = []")
    case True
    with "1.prems" show ?thesis by (simp add: drive_rest)
  next
    case False
    let ?w = "pick sched (pending p)"
    have w: "?w < length (workers p)" "is_awaiting (workers p ! ?w)"
      using pending_awaiting [OF pick_in_set [OF False]] by auto
    show ?thesis
    proof (cases "settle ev ?w p")
      case (Inl r')
      with "1.prems"(2) have "r' = r" by (simp add: drive_step [OF False])
      with Inl settle_rejects [OF "1.prems"(1) w(1)] show ?thesis by simp
    next
      case (Inr q)
      have "pool_inv ev q" by (rule settle_inv [OF "1.prems"(1) w Inr])
      moreover from "1.prems"(2) Inr have "drive ev (tl sched) q = Inl r"
        by (simp add: drive_step [OF False])
      ultimately show ?thesis using "1.IH" [OF False Inr] by simp
    qed
  qed
qed


lemma new_pool_inv: "pool_inv ev (new_pool (length (env_batch ev)) C)"
  by (auto simp: pool_inv_def new_pool_def arrays_sized_def awaited_def one_owner_def
      slots_ok_def hole_def claims_ok_def)

lemma claim_next_workers:
  "length (workers (claim_next n w p)) = length (workers p)"
  "v \<noteq> w \<Longrightarrow> workers (claim_next n w p) ! v = workers p ! v"
  "w < length (workers p) \<Longrightarrow> workers (claim_next n w p) ! w \<noteq> Idle"
  by (auto simp: claim_next_def finish_def Let_def)

lemma launch_steps:
  fixes ev :: env
  defines "ps \<equiv> \<lambda>C k. foldl (\<lambda>p w. claim_next (length (env_batch ev)) w p)
                  (new_pool (length (env_batch ev)) C) [0..<k]"
  assumes "k \<le> C"
  shows "pool_inv ev (ps C k) \<and> length (workers (ps C k)) = C \<and>
         (\<forall>w<C. if w < k then workers (ps C k) ! w \<noteq> Idle else workers (ps C k) ! w = Idle)"
  using assms(2) unfolding ps_def
proof (induction k)
  case 0
  then show ?case by (simp add: new_pool_inv) (simp add: new_pool_def)
next
  case (Suc k)
  let ?n = "length (env_batch ev)"
  let ?q = "foldl (\<lambda>p w. claim_next ?n w p) (new_pool ?n C) [0..<k]"
  from Suc have IH: "pool_inv ev ?q" "length (workers ?q) = C"
    "\<forall>w<C. if w < k then workers ?q ! w \<noteq> Idle else workers ?q ! w = Idle"
    by auto
  have k: "k < length (workers ?q)" "workers ?q ! k = Idle"
    using Suc.prems IH by auto
  have "pool_inv ev (claim_next ?n k ?q)" by (rule claim_next_inv [OF IH(1) k])
  moreover have "length (workers (claim_next ?n k ?q)) = C"
    using IH(2) by (simp add: claim_next_workers)
  moreover have "\<forall>w<C. if w < Suc k then workers (claim_next ?n k ?q) ! w \<noteq> Idle
                        else workers (claim_next ?n k ?q) ! w = Idle"
  proof (intro allI impI)
    fix w assume "w < C"
    show "if w < Suc k then workers (claim_next ?n k ?q) ! w \<noteq> Idle
          else workers (claim_next ?n k ?q) ! w = Idle"
    proof (cases "w = k")
      case True
      then show ?thesis using k(1) by (simp add: claim_next_workers)
    next
      case False
      then show ?thesis using IH(3) \<open>w < C\<close> by (auto simp: claim_next_workers less_Suc_eq)
    qed
  qed
  ultimately show ?case by simp
qed

lemma launch_inv:
  "pool_inv ev (launch (length (env_batch ev)) C)"
  "length (workers (launch (length (env_batch ev)) C)) = C"
  "Idle \<notin> set (workers (launch (length (env_batch ev)) C))"
proof -
  let ?p = "launch (length (env_batch ev)) C"
  from launch_steps [of C C ev] have a: "pool_inv ev ?p" "length (workers ?p) = C"
    "\<forall>w<C. workers ?p ! w \<noteq> Idle"
    by (auto simp: launch_def)
  show "pool_inv ev ?p" "length (workers ?p) = C" by (rule a)+
  show "Idle \<notin> set (workers ?p)"
    using a(2,3) by (auto simp: in_set_conv_nth)
qed

lemma rest_complete:
  assumes inv: "pool_inv ev p" and ni: "Idle \<notin> set (workers p)"
    and rest: "pending p = []" and ne: "workers p \<noteq> []"
  shows "currentIndex p = length (env_batch ev)"
    and "\<forall>i<length (env_batch ev). filled ev i p"
    and "map snd (claims p) = [0..<length (env_batch ev)]"
proof -
  have fin: "\<And>w. w < length (workers p) \<Longrightarrow> workers p ! w = Finished"
  proof -
    fix w assume w: "w < length (workers p)"
    with rest have "\<not> is_awaiting (workers p ! w)"
      by (auto simp: pending_def filter_empty_conv)
    moreover from ni w have "workers p ! w \<noteq> Idle" by (auto simp: in_set_conv_nth)
    ultimately show "workers p ! w = Finished" by (cases "workers p ! w") auto
  qed
  from ne have "0 < length (workers p)" by simp
  from fin [OF this] this have "Finished \<in> set (workers p)" by (metis nth_mem)
  with inv show c: "currentIndex p = length (env_batch ev)" by (simp add: pool_inv_def)
  have na: "\<And>i. \<not> awaited p i" using fin by (auto simp: awaited_def)
  from inv have "slots_ok ev p" by (simp add: pool_inv_def)
  with c na show "\<forall>i<length (env_batch ev). filled ev i p" by (simp add: slots_ok_def)
  from inv c show "map snd (claims p) = [0..<length (env_batch ev)]"
    by (simp add: pool_inv_def claims_ok_def)
qed

section \<open>What evaluate returns\<close>

definition expected_outputs :: "env \<Rightarrow> Prediction option list" where
  "expected_outputs ev =
     map (\<lambda>i. case rollout ev i of Inl r \<Rightarrow> None | Inr (rr, mr) \<Rightarrow> Some (rr_prediction rr))
       [0..<length (env_batch ev)]"

definition expected_scores :: "env \<Rightarrow> number option list" where
  "expected_scores ev =
     map (\<lambda>i. case rollout ev i of Inl r \<Rightarrow> None | Inr (rr, mr) \<Rightarrow> Some (score mr))
       [0..<length (env_batch ev)]"

definition expected_trajectories :: "env \<Rightarrow> Trace option list" where
  "expected_trajectories ev =
     map (\<lambda>i. case rollout ev i of
                 Inl r \<Rightarrow> None
               | Inr (rr, mr) \<Rightarrow>
                   Some \<lparr>example_ind = i, example = env_batch ev ! i,
                         prediction = rr_prediction rr, trace = rr_trace rr,
                         tr_score = \<lparr>score = score mr, feedback = feedback mr\<rparr>\<rparr>)
       [0..<length (env_batch ev)]"

definition arrays_of ::
  "rejection + EvaluationBatch \<Rightarrow> (Prediction option list \<times> number option list) option" where
  "arrays_of res = (case res of Inl r \<Rightarrow> None | Inr b \<Rightarrow> Some (outputs b, scores b))"

lemma filled_arrays:
  assumes "pool_inv ev p" "\<forall>i<length (env_batch ev). filled ev i p"
  shows "outputs_arr p = expected_outputs ev"
    and "scores_arr p = expected_scores ev"
    and "env_capture_traces ev \<Longrightarrow> trajectories_arr p = expected_trajectories ev"
    and "\<not> env_capture_traces ev \<Longrightarrow>
           trajectories_arr p = replicate (length (env_batch ev)) None"
proof -
  from assms(1) have len: "length (outputs_arr p) = length (env_batch ev)"
    "length (scores_arr p) = length (env_batch ev)"
    "length (trajectories_arr p) = length (env_batch ev)"
    by (auto simp: pool_inv_def arrays_sized_def)
  show "outputs_arr p = expected_outputs ev"
    using assms(2) len by (intro nth_equalityI) (auto simp: expected_outputs_def filled_def)
  show "scores_arr p = expected_scores ev"
    using assms(2) len by (intro nth_equalityI) (auto simp: expected_scores_def filled_def)
  show "trajectories_arr p = expected_trajectories ev" if "env_capture_traces ev"
    using assms(2) len that
    by (intro nth_equalityI) (auto simp: expected_trajectories_def filled_def)
  show "trajectories_arr p = replicate (length (env_batch ev)) None"
    if "\<not> env_capture_traces ev"
    using assms(2) len that by (intro nth_equalityI) (auto simp: filled_def)
qed

lemma drive_launch_cases:
  assumes C: "1 \<le> C"
  shows "(\<exists>r i. i < length (env_batch ev) \<and> rollout ev i = Inl r \<and>
            drive ev sched (launch (length (env_batch ev)) C) = Inl r)
       \<or> (\<exists>p. (\<forall>i<length (env_batch ev). filled ev i p) \<and> pool_inv ev p \<and>
              length (workers p) = C \<and>
              map snd (claims p) = [0..<length (env_batch ev)] \<and>
              drive ev sched (launch (length (env_batch ev)) C) = Inr p)"
proof (cases "drive ev sched (launch (length (env_batch ev)) C)")
  case (Inl r)
  from drive_rejects [OF launch_inv(1) Inl] Inl show ?thesis by blast
next
  case (Inr p)
  from drive_returns [OF launch_inv(1) launch_inv(3) Inr]
  have p: "pool_inv ev p" "Idle \<notin> set (workers p)" "pending p = []" "length (workers p) = C"
    by (simp_all add: launch_inv(2))
  from p(4) C have "workers p \<noteq> []" by auto
  from rest_complete [OF p(1,2,3) this] p Inr show ?thesis by blast
qed

lemma filled_Inr: "filled ev i p \<Longrightarrow> \<exists>x. rollout ev i = Inr x"
  by (auto simp: filled_def)


definition metric_call :: "env \<Rightarrow> nat \<Rightarrow> (thrown + metric_value) option" where
  "metric_call ev index =
     (let example = env_batch ev ! index;
          inputs = (case env_getInputs ev of Some g \<Rightarrow> g example | None \<Rightarrow> example)
      in case call_run (env_module ev) inputs of
           Inl r \<Rightarrow> None
         | Inr runResult \<Rightarrow>
             Some (env_metric ev example (rr_prediction runResult)
                     (Some (rr_trace runResult)) None None))"

fun score_of :: "metric_value \<Rightarrow> number" where
  "score_of (Bare v) = v"
| "score_of (Scored v fb) = v"

lemma rollout_metric_call:
  "metric_call ev i = Some mv \<Longrightarrow>
   \<exists>rr. rollout ev i = Inr (rr, metric_result (env_fmt ev) mv)"
  by (auto simp: metric_call_def rollout_def Let_def split: sum.splits)

lemma score_metric_result [simp]:
  "score (metric_result fmt (Inr v)) = score_of v"
  "metric_result fmt (Inl e) = \<lparr>score = 0, feedback = ''Metric evaluation failed.''\<rparr>"
  by (cases v) (simp_all add: metric_result_def normalize_score_def)

lemma evaluate_module [simp]:
  "fst (evaluate sched fmt m batch candidate cap C metric gi) =
     fst (update_candidate_prompts m candidate)"
  by (simp add: evaluate_def Let_def split: prod.splits option.splits sum.splits)

lemma evaluate_step1_throws:
  "update_candidate_prompts m candidate = (m', Some r) \<Longrightarrow>
   evaluate sched fmt m batch candidate cap C metric gi = (m', Inl r)"
  by (simp add: evaluate_def)

lemma evaluate_returns:
  assumes C: "1 \<le> C"
    and step1: "update_candidate_prompts m candidate = (m', None)"
    and ev: "ev = worker_env fmt m' batch cap metric gi"
    and ok: "\<forall>i<length batch. \<exists>x. rollout ev i = Inr x"
  shows "snd (evaluate sched fmt m batch candidate cap C metric gi) =
           Inr \<lparr>outputs = expected_outputs ev, scores = expected_scores ev,
                trajectories = (if cap then expected_trajectories ev else [])\<rparr>"
proof -
  have b: "env_batch ev = batch" "env_capture_traces ev = cap"
    by (simp_all add: ev worker_env_def)
  from drive_launch_cases [OF C, of ev sched] ok obtain p where
    p: "\<forall>i<length batch. filled ev i p" "pool_inv ev p"
       "drive ev sched (launch (length batch) C) = Inr p"
    unfolding b by force
  from filled_arrays [OF p(2)] p(1) b
  have "outputs_arr p = expected_outputs ev" "scores_arr p = expected_scores ev"
    "cap \<Longrightarrow> trajectories_arr p = expected_trajectories ev"
    by auto
  then show ?thesis using p(3) by (simp add: evaluate_def step1 Let_def ev [symmetric])
qed

lemma evaluate_rejects:
  assumes C: "1 \<le> C"
    and step1: "update_candidate_prompts m candidate = (m', None)"
    and ev: "ev = worker_env fmt m' batch cap metric gi"
    and bad: "i < length batch" "rollout ev i = Inl r"
  shows "\<exists>r' j. j < length batch \<and> rollout ev j = Inl r' \<and>
           snd (evaluate sched fmt m batch candidate cap C metric gi) = Inl r'"
proof -
  have b: "env_batch ev = batch" by (simp add: ev worker_env_def)
  from drive_launch_cases [OF C, of ev sched]
  show ?thesis
  proof
    assume "\<exists>r i. i < length (env_batch ev) \<and> rollout ev i = Inl r \<and>
              drive ev sched (launch (length (env_batch ev)) C) = Inl r"
    then show ?thesis unfolding b
      by (auto simp: evaluate_def step1 Let_def ev [symmetric])
  next
    assume "\<exists>p. (\<forall>i<length (env_batch ev). filled ev i p) \<and> pool_inv ev p \<and>
              length (workers p) = C \<and>
              map snd (claims p) = [0..<length (env_batch ev)] \<and>
              drive ev sched (launch (length (env_batch ev)) C) = Inr p"
    then obtain p where "filled ev i p" using bad(1) b by auto
    with bad(2) show ?thesis by (auto dest: filled_Inr)
  qed
qed

lemma evaluate_no_workers:
  assumes step1: "update_candidate_prompts m candidate = (m', None)"
  shows "snd (evaluate sched fmt m [] candidate cap C metric gi) =
           Inr \<lparr>outputs = [], scores = [], trajectories = []\<rparr>"
proof -
  let ?ev = "worker_env fmt m' [] cap metric gi"
  have "drive ?ev sched (launch 0 C) \<noteq> Inl r" for r
    using drive_rejects [of ?ev "launch 0 C" sched r] launch_inv(1) [of ?ev C]
    by (auto simp: worker_env_def)
  then obtain p where p: "drive ?ev sched (launch 0 C) = Inr p"
    by (cases "drive ?ev sched (launch 0 C)") auto
  have "pool_inv ?ev (launch 0 C)" "Idle \<notin> set (workers (launch 0 C))"
    using launch_inv [of ?ev C] by (simp_all add: worker_env_def)
  from drive_returns [OF this p] have "arrays_sized 0 p"
    by (simp add: pool_inv_def worker_env_def)
  then show ?thesis using p by (simp add: evaluate_def step1 Let_def arrays_sized_def)
qed

lemma arrays_of_evaluate:
  assumes C: "1 \<le> C"
    and step1: "update_candidate_prompts m candidate = (m', None)"
    and ev: "ev = worker_env fmt m' batch cap metric gi"
  shows "arrays_of (snd (evaluate sched fmt m batch candidate cap C metric gi)) =
           (if \<forall>i<length batch. \<exists>x. rollout ev i = Inr x
            then Some (expected_outputs ev, expected_scores ev) else None)"
proof (cases "\<forall>i<length batch. \<exists>x. rollout ev i = Inr x")
  case True
  from evaluate_returns [OF C step1 ev True] True show ?thesis by (simp add: arrays_of_def)
next
  case False
  then obtain i r where "i < length batch" "rollout ev i = Inl r"
    by (metis sum.exhaust)
  from evaluate_rejects [OF C step1 ev this, of sched] obtain r' where
    "snd (evaluate sched fmt m batch candidate cap C metric gi) = Inl r'"
    by blast
  with False show ?thesis by (simp add: arrays_of_def)
qed

text \<open>
  C7. For the same program, batch, candidate and metric, \<^verbatim>\<open>Module.evaluate\<close> with one
  worker and with as many workers as the batch has examples hands the caller the same
  \<^verbatim>\<open>outputs\<close> and \<^verbatim>\<open>scores\<close> arrays, whatever the order in which the workers resume
  (\<open>sched1\<close>, \<open>sched2\<close>); if one of the two calls rejects, so does the other. Forward logic
  and metric are functions of their arguments here.
\<close>

theorem evaluate_same_for_one_and_all_workers:
  "arrays_of (snd (evaluate sched1 fmt m batch candidate cap 1 metric gi)) =
   arrays_of (snd (evaluate sched2 fmt m batch candidate cap (length batch) metric gi))"
proof -
  obtain m' outcome where step1: "update_candidate_prompts m candidate = (m', outcome)"
    by (cases "update_candidate_prompts m candidate")
  show ?thesis
  proof (cases outcome)
    case (Some r)
    with step1 show ?thesis by (simp add: evaluate_step1_throws)
  next
    case None
    note s1 = step1 [unfolded None]
    show ?thesis
    proof (cases "batch = []")
      case True
      then show ?thesis by (simp add: evaluate_no_workers [OF s1])
    next
      case False
      then have "1 \<le> length batch" by (cases batch) auto
      then show ?thesis
        using arrays_of_evaluate [OF _ s1 refl, of 1]
          arrays_of_evaluate [OF _ s1 refl, of "length batch"]
        by simp
    qed
  qed
qed

lemma run_rejecting: "call_run rejecting_program inputs = Inl (TypeError Undefined ''name'')"
  by (simp add: call_run_method run_def forward_method rejecting_program_def Module_new_def
      forward_rejecting_undefined_def read_name_def)

lemma launch_2_1:
  "launch (Suc (Suc 0)) (Suc 0) = \<lparr>currentIndex = 1, outputs_arr = [None, None], scores_arr = [None, None],
      trajectories_arr = [None, None], workers = [Awaiting 0], claims = [(0, 0)]\<rparr>"
  by (simp add: launch_def new_pool_def claim_next_def Let_def)

text \<open>
  Whenever step 1 completes and every rollout of the batch settles with a Prediction,
  \<^verbatim>\<open>evaluate\<close> returns a report of the right shape, for every number of workers from one up and every order of
  resumption.
\<close>

lemma evaluate_report_shape:
  assumes "1 \<le> numWorkers"
    and "update_candidate_prompts m candidate = (m', None)"
    and "ev = worker_env fmt m' batch capture_traces metric getInputs"
    and "\<forall>i<length batch. \<exists>x. rollout ev i = Inr x"
  shows "\<exists>b. snd (evaluate sched fmt m batch candidate capture_traces numWorkers metric
                  getInputs) = Inr b \<and>
             length (outputs b) = length batch \<and> length (scores b) = length batch \<and>
             (if capture_traces then length (trajectories b) = length batch
              else trajectories b = [])"
proof -
  have "env_batch ev = batch" by (simp add: assms(3) worker_env_def)
  then show ?thesis
    using evaluate_returns [OF assms, of sched]
    by (simp add: expected_outputs_def expected_scores_def expected_trajectories_def)
qed

text \<open>
  C1. \<^verbatim>\<open>Module.evaluate\<close> is to return a report with one output and one score per example
  for every batch. With one worker and a program whose forward rejects with
  \<^verbatim>\<open>undefined\<close>, the rejection of \<^verbatim>\<open>Module.run\<close> is not caught by the worker:
  \<^verbatim>\<open>Promise.all\<close> rejects and \<^verbatim>\<open>evaluate\<close> rejects with the TypeError instead of
  returning a report.
\<close>

theorem evaluate_rejects_on_undefined:
  "evaluate [] print_number rejecting_program [ticket1, ticket2] [] False 1 metric_one None =
     (rejecting_program, Inl (TypeError Undefined ''name''))"
proof -
  let ?ev = "worker_env print_number rejecting_program [ticket1, ticket2] False metric_one None"
  have "pending (launch (Suc (Suc 0)) (Suc 0)) = [0]" by (simp add: launch_2_1 pending_def)
  moreover have "settle ?ev 0 (launch (Suc (Suc 0)) (Suc 0)) = Inl (TypeError Undefined ''name'')"
    by (simp add: launch_2_1 settle_def rollout_def worker_env_def run_rejecting)
  ultimately have "drive ?ev [] (launch (Suc (Suc 0)) (Suc 0)) = Inl (TypeError Undefined ''name'')"
    by (simp add: drive_step pick_def)
  then show ?thesis by (simp add: evaluate_def)
qed


text \<open>
  Whenever \<^verbatim>\<open>Promise.all\<close> resolves, the log of claims is 0, 1, ... up to the end of the
  batch: every index was claimed once, by one worker of the pool, and its slots were
  written.
\<close>

lemma every_index_claimed_once:
  assumes "1 \<le> C" "drive ev sched (launch (length (env_batch ev)) C) = Inr p"
  shows "map snd (claims p) = [0..<length (env_batch ev)] \<and>
         distinct (map snd (claims p)) \<and>
         (\<forall>c\<in>set (claims p). fst c < C) \<and>
         (\<forall>i<length (env_batch ev). filled ev i p)"
proof -
  from drive_launch_cases [OF assms(1), of ev sched] assms(2)
  have p: "\<forall>i<length (env_batch ev). filled ev i p" "pool_inv ev p"
    "length (workers p) = C" "map snd (claims p) = [0..<length (env_batch ev)]"
    by auto
  from p(2,3) have "\<forall>c\<in>set (claims p). fst c < C"
    by (simp add: pool_inv_def claims_ok_def)
  with p show ?thesis by simp
qed

text \<open>
  C3. Every index of the batch is to be claimed and processed by exactly one worker, none
  skipped. With one worker and two examples, the worker claims index 0 at launch; its
  rollout rejects (forward rejected with \<^verbatim>\<open>undefined\<close>), the worker's promise rejects
  with it and \<^verbatim>\<open>evaluate\<close> rejects: the cursor stands at 1 and index 1 is never claimed.
\<close>

theorem rejected_worker_leaves_index_unclaimed:
  "launch (Suc (Suc 0)) (Suc 0) =
     \<lparr>currentIndex = 1, outputs_arr = [None, None], scores_arr = [None, None],
      trajectories_arr = [None, None], workers = [Awaiting 0], claims = [(0, 0)]\<rparr> \<and>
   settle (worker_env print_number rejecting_program [ticket1, ticket2] False metric_one None)
     0 (launch (Suc (Suc 0)) (Suc 0)) = Inl (TypeError Undefined ''name'') \<and>
   drive (worker_env print_number rejecting_program [ticket1, ticket2] False metric_one None)
     [] (launch (Suc (Suc 0)) (Suc 0)) = Inl (TypeError Undefined ''name'')"
proof -
  let ?ev = "worker_env print_number rejecting_program [ticket1, ticket2] False metric_one None"
  have "pending (launch (Suc (Suc 0)) (Suc 0)) = [0]" by (simp add: launch_2_1 pending_def)
  moreover have s: "settle ?ev 0 (launch (Suc (Suc 0)) (Suc 0)) = Inl (TypeError Undefined ''name'')"
    by (simp add: launch_2_1 settle_def rollout_def worker_env_def run_rejecting)
  ultimately have "drive ?ev [] (launch (Suc (Suc 0)) (Suc 0)) = Inl (TypeError Undefined ''name'')"
    by (simp add: drive_step pick_def)
  with s launch_2_1 show ?thesis by simp
qed

lemma expected_lengths [simp]:
  "length (expected_outputs ev) = length (env_batch ev)"
  "length (expected_scores ev) = length (env_batch ev)"
  "length (expected_trajectories ev) = length (env_batch ev)"
  by (simp_all add: expected_outputs_def expected_scores_def expected_trajectories_def)

text \<open>
  Let step 1 complete, and let the metric throw for exactly one index \<open>k\<close> of the batch
  and return for every other index. Then \<^verbatim>\<open>Module.evaluate\<close> returns, with one score per
  example: the score at \<open>k\<close> is 0, the score at every other index is the one the metric
  gave, and the trajectory of \<open>k\<close>, when traces are captured, carries the score 0 with the
  feedback \<^verbatim>\<open>Metric evaluation failed.\<close> This holds for every number of workers from one
  up and every order of resumption.
\<close>

lemma metric_failure_is_contained:
  assumes C: "1 \<le> numWorkers"
    and step1: "update_candidate_prompts m candidate = (m', None)"
    and ev: "ev = worker_env fmt m' batch capture_traces metric getInputs"
    and k: "k < length batch"
    and fails: "metric_call ev k = Some (Inl e)"
    and others: "\<forall>j<length batch. j \<noteq> k \<longrightarrow> (\<exists>v. metric_call ev j = Some (Inr v))"
  shows "\<exists>b. snd (evaluate sched fmt m batch candidate capture_traces numWorkers metric
                  getInputs) = Inr b \<and>
             length (scores b) = length batch \<and>
             scores b ! k = Some 0 \<and>
             (\<forall>j<length batch. j \<noteq> k \<longrightarrow>
                (\<exists>v. metric_call ev j = Some (Inr v) \<and> scores b ! j = Some (score_of v))) \<and>
             (capture_traces \<longrightarrow>
                (\<exists>t. trajectories b ! k = Some t \<and>
                     tr_score t = \<lparr>score = 0, feedback = ''Metric evaluation failed.''\<rparr>))"
proof -
  have b: "env_batch ev = batch" "env_fmt ev = fmt" by (simp_all add: ev worker_env_def)
  have called: "\<forall>j<length batch. \<exists>mv. metric_call ev j = Some mv"
    using fails others by (metis)
  have ok: "\<forall>i<length batch. \<exists>x. rollout ev i = Inr x"
    using called by (metis rollout_metric_call)
  let ?b = "\<lparr>outputs = expected_outputs ev, scores = expected_scores ev,
             trajectories = (if capture_traces then expected_trajectories ev else [])\<rparr>"
  have res: "snd (evaluate sched fmt m batch candidate capture_traces numWorkers metric
                getInputs) = Inr ?b"
    by (rule evaluate_returns [OF C step1 ev ok])
  from rollout_metric_call [OF fails] obtain rr where
    rk: "rollout ev k = Inr (rr, metric_result fmt (Inl e))" by (auto simp: b)
  have sk: "scores ?b ! k = Some 0"
    using k rk by (simp add: expected_scores_def b)
  have tk: "capture_traces \<longrightarrow>
      (\<exists>t. trajectories ?b ! k = Some t \<and>
           tr_score t = \<lparr>score = 0, feedback = ''Metric evaluation failed.''\<rparr>)"
    using k rk by (simp add: expected_trajectories_def b)
  have sj: "\<forall>j<length batch. j \<noteq> k \<longrightarrow>
      (\<exists>v. metric_call ev j = Some (Inr v) \<and> scores ?b ! j = Some (score_of v))"
  proof (intro allI impI)
    fix j assume j: "j < length batch" "j \<noteq> k"
    with others obtain v where v: "metric_call ev j = Some (Inr v)" by blast
    from rollout_metric_call [OF v] obtain rr' where
      "rollout ev j = Inr (rr', metric_result fmt (Inr v))" by (auto simp: b)
    with j(1) have "scores ?b ! j = Some (score_of v)"
      by (simp add: expected_scores_def b)
    with v show "\<exists>v. metric_call ev j = Some (Inr v) \<and> scores ?b ! j = Some (score_of v)"
      by blast
  qed
  from res sk tk sj show ?thesis by (simp add: b)
qed

lemma returning_program_unfolded:
  "returning_program =
     \<lparr>heap = [\<lparr>name = ''judge'', instructions = ''Classify the ticket.''\<rparr>],
      predictors = [(''judge'', PredRef 0)], members = [(''judge'', 0)],
      forward_fn = Some forward_returning_label,
      class_instructions = None, object_instructions = None\<rparr>"
  by (simp add: returning_program_def Module_new_def judge_def)

lemma call_run_returning:
  "call_run returning_program inputs =
     Inr \<lparr>rr_prediction =
            \<lparr>pr_output = JStr ''account'', errorType = JNull, errorMessage = JNull,
             errorTraceback = JNull\<rparr>,
          rr_trace = []\<rparr>"
  by (simp add: call_run_method run_def forward_method returning_program_unfolded
      forward_returning_label_def)

text \<open>
  With an empty candidate the metric is called for both tickets: it throws for the first
  and returns 1 for the second.
\<close>

lemma metric_calls_of_sample:
  "metric_call (worker_env print_number returning_program [ticket1, ticket2] False
                  metric_failing_on_ticket1 None) 0 = Some (Inl (Error_new ''no label''))"
  "metric_call (worker_env print_number returning_program [ticket1, ticket2] False
                  metric_failing_on_ticket1 None) (Suc 0) = Some (Inr (Bare 1))"
  by (simp_all add: metric_call_def worker_env_def call_run_returning
      metric_failing_on_ticket1_def ticket1_def ticket2_def)



section \<open>Applying a candidate\<close>

text \<open>
  C4. Applying a candidate is to change the instructions of the predictors it names and
  to ignore every other entry. The finalize path of \<^verbatim>\<open>compile\<close> and \<^verbatim>\<open>Module.load\<close> look
  a name up in the table \<^verbatim>\<open>_predictors\<close>. \<^verbatim>\<open>Module.evaluate\<close> looks it up on the program
  object and only leaves functions out: the candidate entry \<^verbatim>\<open>_predictors\<close>, which names
  no predictor, finds the table itself, and \<^verbatim>\<open>evaluate\<close> writes the text into the table
  as a new property \<^verbatim>\<open>instructions\<close>. \<^verbatim>\<open>save\<close> and the seed candidate of \<^verbatim>\<open>compile\<close>
  enumerate the table and then meet an entry that is no predictor.
\<close>

theorem evaluate_writes_into_predictor_table:
  "fst (evaluate [] print_number returning_program [ticket1] [(''_predictors'', ''X'')] False 1
          metric_one None) =
     \<lparr>heap = [\<lparr>name = ''judge'', instructions = ''Classify the ticket.''\<rparr>],
      predictors = [(''judge'', PredRef 0), (''instructions'', StrVal ''X'')],
      members = [(''judge'', 0)],
      forward_fn = Some forward_returning_label,
      class_instructions = None, object_instructions = None\<rparr>"
  by (simp add: returning_program_unfolded get_member_def)

text \<open>The finalize path ignores the same entry.\<close>

lemma update_student_same_entry:
  "update_student returning_program [(''_predictors'', ''X'')] = (returning_program, None)"
  by (simp add: returning_program_unfolded get_predictor_def object_methods_def)

text \<open>
  For an entry that names a predictor, both paths assign to the one shared predictor
  object; entries that resolve to nothing or to a function leave the program as it is.
\<close>

lemma update_candidate_prompts_named:
  assumes "nm \<noteq> ''_forward''" "map_of (members m) nm = Some a"
  shows "update_candidate_prompts m [(nm, prompt)] = (set_instructions a prompt m, None)"
  using assms by (simp add: get_member_def)

lemma update_student_named:
  assumes "map_of (predictors m) nm = Some (PredRef a)"
  shows "update_student m [(nm, prompt)] = (set_instructions a prompt m, None)"
  using assms by (simp add: get_predictor_def)

lemma update_candidate_prompts_unknown:
  assumes "\<forall>nm\<in>fst ` set candidate.
             map_of (members m) nm = None \<and>
             nm \<notin> {''_predictors'', ''__proto__'', ''instructions''}"
  shows "update_candidate_prompts m candidate = (m, None)"
  using assms
proof (induction candidate)
  case Nil
  then show ?case by simp
next
  case (Cons c candidate)
  obtain nm prompt where c: "c = (nm, prompt)" by (cases c)
  from Cons.prems c have "map_of (members m) nm = None"
    "nm \<notin> {''_predictors'', ''__proto__'', ''instructions''}" by auto
  then have "get_member m nm \<in> {Absent, Fn}"
    by (auto simp: get_member_def split: option.splits)
  then have "update_candidate_prompts m (c # candidate) = update_candidate_prompts m candidate"
    by (auto simp: c)
  with Cons show ?case by simp
qed

lemma update_student_unknown:
  assumes "\<forall>nm\<in>fst ` set candidate.
             map_of (predictors m) nm = None \<and> nm \<notin> {''__proto__'', ''instructions''}"
  shows "update_student m candidate = (m, None)"
  using assms
proof (induction candidate)
  case Nil
  then show ?case by simp
next
  case (Cons c candidate)
  obtain nm prompt where c: "c = (nm, prompt)" by (cases c)
  from Cons.prems c have "map_of (predictors m) nm = None"
    "nm \<notin> {''__proto__'', ''instructions''}" by auto
  then have "get_predictor m nm \<in> {TAbsent, TFn}"
    by (auto simp: get_predictor_def)
  then have "update_student m (c # candidate) = update_student m candidate"
    by (auto simp: c)
  with Cons show ?case by simp
qed

section \<open>The optimization session (teleprompt.ts, server.ts)\<close>

record EvaluateRequest =
  batch :: "Example list"
  candidate :: "(string \<times> string) list"
  capture_traces :: bool

record MetricRequestEntry =
  gold :: Example
  entry_prediction :: Prediction
  entry_trace :: "TraceEntry list option"
  pred_name :: "string option"
  pred_trace :: "TraceEntry list option"

record FinalizeRequest =
  best_candidate :: "(string \<times> string) list"
  results :: jsval

text \<open>What \<^verbatim>\<open>finalizeResolve\<close> is called with.\<close>

record FinalizePayload =
  bestCandidate :: "(string \<times> string) list"
  payload_results :: jsval

text \<open>
  How the promise returned by \<^verbatim>\<open>compile\<close>'s last \<^verbatim>\<open>await\<close> stands. It resolves with the
  object \<^verbatim>\<open>student\<close> itself, so the program handed back is \<open>student\<close> of the session.
  A rejection carries the error of the process's \<^verbatim>\<open>error\<close> event, or
  \<^verbatim>\<open>new Error(`Optimization process failed with code ${code}`)\<close> with the exit code
  (\<open>None\<close>: the process was killed by a signal).
\<close>

datatype compile_error = ProcessError thrown | ProcessFailed "int option"

datatype compile_promise = Pending | Resolved | Rejected compile_error

text \<open>
  The fields of the \<^verbatim>\<open>Teleprompt\<close> instance the server reads, the program the server and
  \<^verbatim>\<open>compile\<close> share, and the two promises of \<^verbatim>\<open>compile\<close>. \<open>finalizeResolve\<close> tells
  whether \<^verbatim>\<open>this.finalizeResolve\<close> is set, that is, whether \<^verbatim>\<open>compile\<close> has created
  \<^verbatim>\<open>optimizationPromise\<close> (\<open>None\<close>: still pending) and registered its callback on it.
  \<open>tp_dataset\<close> is \<^verbatim>\<open>dataset.getInputs\<close>.
\<close>

record session =
  tp_numThreads :: nat
  tp_metric :: "MetricFunction option"
  tp_dataset :: "(Example \<Rightarrow> Example) option"
  finalizeResolve :: bool
  optimizationPromise :: "FinalizePayload option"
  compilePromise :: compile_promise
  student :: Module

text \<open>A promise settles once: \<^verbatim>\<open>resolve\<close> and \<^verbatim>\<open>reject\<close> on a settled promise do nothing.\<close>

definition resolve_compile :: "session \<Rightarrow> session" where
  "resolve_compile s = (case compilePromise s of
       Pending \<Rightarrow> s\<lparr>compilePromise := Resolved\<rparr>
     | Resolved \<Rightarrow> s
     | Rejected err \<Rightarrow> s)"

definition reject_compile :: "compile_error \<Rightarrow> session \<Rightarrow> session" where
  "reject_compile err s = (case compilePromise s of
       Pending \<Rightarrow> s\<lparr>compilePromise := Rejected err\<rparr>
     | Resolved \<Rightarrow> s
     | Rejected err' \<Rightarrow> s)"

text \<open>
  The callback \<^verbatim>\<open>compile\<close> registers with \<^verbatim>\<open>optimizationPromise.then\<close>: update the
  student, then \<^verbatim>\<open>resolve(student)\<close>. If the update throws, \<^verbatim>\<open>resolve\<close> is not reached;
  the promise that \<^verbatim>\<open>then\<close> returned rejects, and nothing handles it.
\<close>

definition on_optimized :: "FinalizePayload \<Rightarrow> session \<Rightarrow> session" where
  "on_optimized payload s = (case update_student (student s) (bestCandidate payload) of
       (m, None) \<Rightarrow> resolve_compile (s\<lparr>student := m\<rparr>)
     | (m, Some err) \<Rightarrow> s\<lparr>student := m\<rparr>)"

text \<open>
  \<^verbatim>\<open>Teleprompt.finalize\<close>. Resolving \<^verbatim>\<open>optimizationPromise\<close> runs its callback before any
  other event is handled; resolving it again does nothing.
\<close>

definition finalize :: "session \<Rightarrow> (string \<times> string) list \<Rightarrow> jsval \<Rightarrow> session" where
  "finalize s bestCandidate' results' =
     (if finalizeResolve s then
        (case optimizationPromise s of
           None \<Rightarrow>
             (let payload = \<lparr>bestCandidate = bestCandidate', payload_results = results'\<rparr>
              in on_optimized payload (s\<lparr>optimizationPromise := Some payload\<rparr>))
         | Some first \<Rightarrow> s)
      else s)"

text \<open>
  \<^verbatim>\<open>compile\<close> up to its last \<^verbatim>\<open>await\<close>: it binds metric and dataset, creates
  \<^verbatim>\<open>optimizationPromise\<close>, keeps its resolver and registers the handlers.
\<close>

definition compile_start ::
  "nat \<Rightarrow> MetricFunction \<Rightarrow> (Example \<Rightarrow> Example) \<Rightarrow> Module \<Rightarrow> session" where
  "compile_start numThreads metric getInputs student' =
     \<lparr>tp_numThreads = numThreads, tp_metric = Some metric, tp_dataset = Some getInputs,
      finalizeResolve = True, optimizationPromise = None, compilePromise = Pending,
      student = student'\<rparr>"

text \<open>The handlers of the child process's \<^verbatim>\<open>error\<close> and \<^verbatim>\<open>close\<close> events.\<close>

definition on_error :: "thrown \<Rightarrow> session \<Rightarrow> session" where
  "on_error err s = reject_compile (ProcessError err) s"

definition on_close :: "int option \<Rightarrow> session \<Rightarrow> session" where
  "on_close code s = (if code \<noteq> Some 0 then reject_compile (ProcessFailed code) s else s)"

subsection \<open>The server\<close>

datatype body =
    Report EvaluationBatch
  | Scores "ScoreWFeedback list"
  | ErrorBody string
  | StatusOk
  | InternalError

record reply =
  status :: nat
  body :: body

text \<open>
  A handler that throws makes Fastify answer with status 500; one that returns a value
  answers with status 200.
\<close>

definition not_configured :: reply where
  "not_configured =
     \<lparr>status = 500, body = ErrorBody ''Metric not configured on Teleprompt instance''\<rparr>"

text \<open>
  \<^verbatim>\<open>POST /evaluate\<close>. \<open>sched\<close> is the order in which the workers of this call resume.
  The call \<^verbatim>\<open>module.evaluate(...)\<close> throws when a predictor stored under the name
  \<^verbatim>\<open>evaluate\<close> shadows the method.
\<close>

definition post_evaluate ::
  "(number \<Rightarrow> string) \<Rightarrow> nat list \<Rightarrow> session \<Rightarrow> EvaluateRequest \<Rightarrow> session \<times> reply" where
  "post_evaluate fmt sched s req = (case tp_metric s of
       None \<Rightarrow> (s, not_configured)
     | Some metric \<Rightarrow>
         if get_member (student s) ''evaluate'' = Fn then
           (case evaluate sched fmt (student s) (batch req) (candidate req)
                   (capture_traces req)
                   (if tp_numThreads s = 0 then 4 else tp_numThreads s) metric
                   (tp_dataset s) of
              (m, Inl r) \<Rightarrow> (s\<lparr>student := m\<rparr>, \<lparr>status = 500, body = InternalError\<rparr>)
            | (m, Inr b) \<Rightarrow> (s\<lparr>student := m\<rparr>, \<lparr>status = 200, body = Report b\<rparr>))
         else (s, \<lparr>status = 500, body = InternalError\<rparr>))"

text \<open>
  \<^verbatim>\<open>POST /metric\<close>: the metric on each entry, in order; no catch, so the first failure
  fails the request.
\<close>

fun score_entries ::
  "(number \<Rightarrow> string) \<Rightarrow> MetricFunction \<Rightarrow> MetricRequestEntry list \<Rightarrow>
   thrown + ScoreWFeedback list" where
  "score_entries fmt metric [] = Inr []"
| "score_entries fmt metric (entry # rest) =
     (case metric (gold entry) (entry_prediction entry) (entry_trace entry) (pred_name entry)
             (pred_trace entry) of
        Inl e \<Rightarrow> Inl e
      | Inr v \<Rightarrow>
          (case score_entries fmt metric rest of
             Inl e \<Rightarrow> Inl e
           | Inr ss \<Rightarrow> Inr (normalize_score fmt v # ss)))"

definition post_metric ::
  "(number \<Rightarrow> string) \<Rightarrow> session \<Rightarrow> MetricRequestEntry list \<Rightarrow> session \<times> reply" where
  "post_metric fmt s entries = (case tp_metric s of
       None \<Rightarrow> (s, not_configured)
     | Some metric \<Rightarrow>
         (case score_entries fmt metric entries of
            Inl e \<Rightarrow> (s, \<lparr>status = 500, body = InternalError\<rparr>)
          | Inr ss \<Rightarrow> (s, \<lparr>status = 200, body = Scores ss\<rparr>)))"

text \<open>\<^verbatim>\<open>POST /finalize\<close>\<close>

definition post_finalize :: "session \<Rightarrow> FinalizeRequest \<Rightarrow> session \<times> reply" where
  "post_finalize s req =
     (finalize s (best_candidate req) (results req), \<lparr>status = 200, body = StatusOk\<rparr>)"

datatype request =
    PostEvaluate "nat list" EvaluateRequest
  | PostMetric "MetricRequestEntry list"
  | PostFinalize FinalizeRequest

fun handle :: "(number \<Rightarrow> string) \<Rightarrow> session \<Rightarrow> request \<Rightarrow> session \<times> reply" where
  "handle fmt s (PostEvaluate sched req) = post_evaluate fmt sched s req"
| "handle fmt s (PostMetric entries) = post_metric fmt s entries"
| "handle fmt s (PostFinalize req) = post_finalize s req"

text \<open>The server answers one request after the other.\<close>

fun serve :: "(number \<Rightarrow> string) \<Rightarrow> session \<Rightarrow> request list \<Rightarrow> session \<times> reply list" where
  "serve fmt s [] = (s, [])"
| "serve fmt s (r # rs) =
     (case handle fmt s r of
        (s', rep) \<Rightarrow> (case serve fmt s' rs of (s'', reps) \<Rightarrow> (s'', rep # reps)))"

text \<open>What happens while \<^verbatim>\<open>compile\<close> waits: a request is served, or the process reports.\<close>

datatype event = Request request | ProcError thrown | ProcClose "int option"

fun step :: "(number \<Rightarrow> string) \<Rightarrow> session \<Rightarrow> event \<Rightarrow> session" where
  "step fmt s (Request r) = fst (handle fmt s r)"
| "step fmt s (ProcError err) = on_error err s"
| "step fmt s (ProcClose code) = on_close code s"

definition run_events :: "(number \<Rightarrow> string) \<Rightarrow> session \<Rightarrow> event list \<Rightarrow> session" where
  "run_events fmt s evs = foldl (step fmt) s evs"


subsection \<open>Which signal decides\<close>

text \<open>
  A signal is a call of the finalize endpoint, the \<^verbatim>\<open>error\<close> event of the process, or its
  \<^verbatim>\<open>close\<close> event with a code other than 0. Calls of the other endpoints and an exit with
  code 0 settle nothing.
\<close>

fun deciding :: "event \<Rightarrow> bool" where
  "deciding (Request (PostFinalize req)) = True"
| "deciding (Request (PostEvaluate sched req)) = False"
| "deciding (Request (PostMetric entries)) = False"
| "deciding (ProcError err) = True"
| "deciding (ProcClose code) = (code \<noteq> Some 0)"

fun verdict :: "event \<Rightarrow> compile_promise" where
  "verdict (Request r) = Resolved"
| "verdict (ProcError err) = Rejected (ProcessError err)"
| "verdict (ProcClose code) = Rejected (ProcessFailed code)"

definition awaiting :: "session \<Rightarrow> bool" where
  "awaiting s \<longleftrightarrow>
     finalizeResolve s \<and> optimizationPromise s = None \<and> compilePromise s = Pending"

lemma settled_step:
  "compilePromise s \<noteq> Pending \<Longrightarrow> compilePromise (step fmt s e) = compilePromise s"
proof (cases e)
  case (Request r)
  assume p: "compilePromise s \<noteq> Pending"
  show ?thesis
  proof (cases r)
    case (PostEvaluate sched req)
    then show ?thesis using Request
      by (simp add: post_evaluate_def split: option.splits prod.splits sum.splits)
  next
    case (PostMetric entries)
    then show ?thesis using Request
      by (simp add: post_metric_def split: option.splits sum.splits)
  next
    case (PostFinalize req)
    then show ?thesis using Request p
      by (cases "compilePromise s")
         (simp_all add: post_finalize_def finalize_def on_optimized_def resolve_compile_def
            Let_def split: option.splits prod.splits)
  qed
next
  case (ProcError err)
  assume "compilePromise s \<noteq> Pending"
  then show ?thesis using ProcError
    by (cases "compilePromise s") (simp_all add: on_error_def reject_compile_def)
next
  case (ProcClose code)
  assume "compilePromise s \<noteq> Pending"
  then show ?thesis using ProcClose
    by (cases "compilePromise s") (simp_all add: on_close_def reject_compile_def)
qed

lemma settled_run_events:
  "compilePromise s \<noteq> Pending \<Longrightarrow> compilePromise (run_events fmt s evs) = compilePromise s"
proof (induction evs arbitrary: s)
  case Nil
  then show ?case by (simp add: run_events_def)
next
  case (Cons e evs)
  have "compilePromise (step fmt s e) \<noteq> Pending"
    using Cons.prems by (simp add: settled_step)
  from Cons.IH [OF this] show ?case
    using Cons.prems by (simp add: run_events_def settled_step)
qed

lemma awaiting_step:
  "awaiting s \<Longrightarrow> \<not> deciding e \<Longrightarrow> awaiting (step fmt s e)"
proof (cases e)
  case (Request r)
  assume a: "awaiting s" "\<not> deciding e"
  show ?thesis
  proof (cases r)
    case (PostEvaluate sched req)
    then show ?thesis using Request a
      by (auto simp: awaiting_def post_evaluate_def split: option.splits prod.splits sum.splits)
  next
    case (PostMetric entries)
    then show ?thesis using Request a
      by (auto simp: awaiting_def post_metric_def split: option.splits sum.splits)
  next
    case (PostFinalize req)
    then show ?thesis using Request a by simp
  qed
next
  case (ProcError err)
  assume "awaiting s" "\<not> deciding e"
  then show ?thesis using ProcError by simp
next
  case (ProcClose code)
  assume "awaiting s" "\<not> deciding e"
  then show ?thesis using ProcClose by (simp add: on_close_def)
qed

lemma awaiting_run_events:
  "awaiting s \<Longrightarrow> list_all (\<lambda>e. \<not> deciding e) pre \<Longrightarrow> awaiting (run_events fmt s pre)"
proof (induction pre arbitrary: s)
  case Nil
  then show ?case by (simp add: run_events_def)
next
  case (Cons e pre)
  from Cons.prems have "awaiting (step fmt s e)" by (simp add: awaiting_step)
  from Cons.IH [OF this] Cons.prems(2) show ?case by (simp add: run_events_def)
qed

lemma first_finalize:
  assumes "awaiting s" "snd (update_student (student s) (best_candidate req)) = None"
  shows "fst (post_finalize s req) =
           s\<lparr>optimizationPromise :=
                Some \<lparr>bestCandidate = best_candidate req, payload_results = results req\<rparr>,
              student := fst (update_student (student s) (best_candidate req)),
              compilePromise := Resolved\<rparr>"
proof -
  obtain m where u: "update_student (student s) (best_candidate req) = (m, None)"
    using assms(2) by (cases "update_student (student s) (best_candidate req)") auto
  show ?thesis
    using assms(1)
    by (simp add: awaiting_def post_finalize_def finalize_def on_optimized_def u
        resolve_compile_def)
qed

text \<open>
  When the update in the callback throws, the first finalize call leaves \<^verbatim>\<open>compile\<close>
  pending; the resolver has been used, so no later call can resolve it either.
\<close>

lemma first_finalize_throws:
  assumes "awaiting s" "update_student (student s) (best_candidate req) = (m, Some r)"
  shows "fst (post_finalize s req) =
           s\<lparr>optimizationPromise :=
                Some \<lparr>bestCandidate = best_candidate req, payload_results = results req\<rparr>,
              student := m\<rparr>"
  using assms
  by (simp add: awaiting_def post_finalize_def finalize_def on_optimized_def)

lemma later_finalize:
  "optimizationPromise s \<noteq> None \<Longrightarrow> fst (post_finalize s req) = s"
  by (auto simp: post_finalize_def finalize_def)

lemma deciding_step:
  assumes "awaiting s" "deciding e"
    and "\<forall>req. e = Request (PostFinalize req) \<longrightarrow>
           snd (update_student (student s) (best_candidate req)) = None"
  shows "compilePromise (step fmt s e) = verdict e"
proof (cases e)
  case (Request r)
  with assms(2) obtain req where r: "r = PostFinalize req" by (cases r) auto
  with Request assms(3) have "snd (update_student (student s) (best_candidate req)) = None"
    by simp
  from first_finalize [OF assms(1) this] Request r show ?thesis by simp
next
  case (ProcError err)
  with assms(1) show ?thesis by (simp add: awaiting_def on_error_def reject_compile_def)
next
  case (ProcClose code)
  with assms(1,2) show ?thesis by (simp add: awaiting_def on_close_def reject_compile_def)
qed

lemma verdict_settled: "verdict e \<noteq> Pending"
  by (cases e) simp_all

lemma run_events_append:
  "run_events fmt s (xs @ ys) = run_events fmt (run_events fmt s xs) ys"
  by (simp add: run_events_def)

lemma run_events_Cons:
  "run_events fmt s (e # evs) = run_events fmt (step fmt s e) evs"
  by (simp add: run_events_def)

text \<open>
  While \<^verbatim>\<open>compile\<close> waits, the first signal decides and nothing after it changes the
  outcome, provided that the update in the callback completes when the signal is a
  finalize call: that call resolves \<^verbatim>\<open>compile\<close> with the student updated by its
  \<^verbatim>\<open>best_candidate\<close>, a failure of the process rejects it with that failure. A finalize
  call after the first one leaves the session exactly as it was.
\<close>

lemma compile_first_signal_decides:
  assumes "awaiting s"
    and "list_all (\<lambda>e. \<not> deciding e) pre"
    and "deciding e"
    and "\<forall>req. e = Request (PostFinalize req) \<longrightarrow>
           snd (update_student (student (run_events fmt s pre)) (best_candidate req)) = None"
  shows "compilePromise (run_events fmt s (pre @ e # post)) = verdict e \<and>
         (\<forall>req. e = Request (PostFinalize req) \<longrightarrow>
            student (run_events fmt s (pre @ [e])) =
              fst (update_student (student (run_events fmt s pre)) (best_candidate req)) \<and>
            (\<forall>req'. step fmt (run_events fmt s (pre @ [e])) (Request (PostFinalize req')) =
                      run_events fmt s (pre @ [e])))"
proof -
  let ?s = "run_events fmt s pre"
  have a: "awaiting ?s" by (rule awaiting_run_events [OF assms(1,2)])
  have d: "compilePromise (step fmt ?s e) = verdict e"
    by (rule deciding_step [OF a assms(3,4)])
  then have "compilePromise (step fmt ?s e) \<noteq> Pending" by (simp add: verdict_settled)
  from settled_run_events [OF this, of fmt post] d
  have 1: "compilePromise (run_events fmt s (pre @ e # post)) = verdict e"
    by (simp add: run_events_append run_events_Cons)
  have 2: "student (run_events fmt s (pre @ [e])) =
              fst (update_student (student ?s) (best_candidate req)) \<and>
           (\<forall>req'. step fmt (run_events fmt s (pre @ [e])) (Request (PostFinalize req')) =
                      run_events fmt s (pre @ [e]))"
    if e: "e = Request (PostFinalize req)" for req
  proof -
    have u: "snd (update_student (student ?s) (best_candidate req)) = None"
      using assms(4) e by simp
    have st: "run_events fmt s (pre @ [e]) = step fmt ?s e"
      by (simp add: run_events_append run_events_Cons run_events_def)
    have f: "step fmt ?s e = fst (post_finalize ?s req)" by (simp add: e)
    have "optimizationPromise (fst (post_finalize ?s req)) \<noteq> None"
      by (simp add: first_finalize [OF a u])
    then have "\<forall>req'. fst (post_finalize (fst (post_finalize ?s req)) req') =
                 fst (post_finalize ?s req)"
      by (simp add: later_finalize)
    moreover have "student (fst (post_finalize ?s req)) =
                     fst (update_student (student ?s) (best_candidate req))"
      by (simp add: first_finalize [OF a u])
    ultimately show ?thesis by (simp add: st f)
  qed
  from 1 2 show ?thesis by blast
qed

lemma post_evaluate_student:
  assumes "tp_metric s = Some metric" "get_member (student s) ''evaluate'' = Fn"
  shows "fst (post_evaluate fmt sched s req) =
           s\<lparr>student := fst (update_candidate_prompts (student s) (candidate req))\<rparr>"
proof -
  let ?e = "evaluate sched fmt (student s) (batch req) (candidate req) (capture_traces req)
              (if tp_numThreads s = 0 then 4 else tp_numThreads s) metric (tp_dataset s)"
  have "fst ?e = fst (update_candidate_prompts (student s) (candidate req))"
    by (rule evaluate_module)
  then show ?thesis
    using assms by (cases ?e) (auto simp: post_evaluate_def split: sum.splits)
qed

subsection \<open>Sample sessions\<close>

text \<open>
  A \<^verbatim>\<open>Teleprompt\<close> as its constructor leaves it (no metric, no dataset, no resolver), with
  the server created for it and a program.
\<close>

definition new_session :: "nat \<Rightarrow> Module \<Rightarrow> session" where
  "new_session numThreads m =
     \<lparr>tp_numThreads = numThreads, tp_metric = None, tp_dataset = None,
      finalizeResolve = False, optimizationPromise = None, compilePromise = Pending,
      student = m\<rparr>"

text \<open>What \<^verbatim>\<open>getInputs\<close> of a dataset with the one input field \<^verbatim>\<open>ticket\<close> returns.\<close>

definition dataset_inputs :: "Example \<Rightarrow> Example" where
  "dataset_inputs ex =
     (case map_of ex ''ticket'' of Some v \<Rightarrow> [(''ticket'', v)] | None \<Rightarrow> [])"

definition first_verdict :: FinalizeRequest where
  "first_verdict = \<lparr>best_candidate = [(''judge'', ''Best.'')], results = JNull\<rparr>"

definition second_verdict :: FinalizeRequest where
  "second_verdict = \<lparr>best_candidate = [(''judge'', ''Other.'')], results = JNull\<rparr>"

definition one_ticket :: EvaluateRequest where
  "one_ticket = \<lparr>batch = [ticket1], candidate = [], capture_traces = False\<rparr>"

text \<open>
  An evaluate request whose candidate names the table, and a finalize call whose
  candidate names the property that request leaves in the table.
\<close>

definition table_entry :: EvaluateRequest where
  "table_entry =
     \<lparr>batch = [ticket1], candidate = [(''_predictors'', ''X'')], capture_traces = False\<rparr>"

definition names_instructions :: FinalizeRequest where
  "names_instructions = \<lparr>best_candidate = [(''instructions'', ''Y'')], results = JNull\<rparr>"

lemma compile_first_signal_decides_sample:
  "compilePromise
     (run_events print_number (compile_start 4 metric_one dataset_inputs returning_program)
        ([ProcClose (Some 0)] @ Request (PostFinalize first_verdict) #
         [Request (PostFinalize second_verdict), ProcClose (Some 1)])) = Resolved \<and>
   heap (student
     (run_events print_number (compile_start 4 metric_one dataset_inputs returning_program)
        ([ProcClose (Some 0)] @ [Request (PostFinalize first_verdict)]))) =
     [\<lparr>name = ''judge'', instructions = ''Best.''\<rparr>]"
proof -
  let ?s = "compile_start 4 metric_one dataset_inputs returning_program"
  have a: "awaiting ?s" by (simp add: awaiting_def compile_start_def)
  have l: "list_all (\<lambda>e. \<not> deciding e) [ProcClose (Some 0)]" by simp
  have d: "deciding (Request (PostFinalize first_verdict))" by simp
  have p: "run_events print_number ?s [ProcClose (Some 0)] = ?s"
    by (simp add: run_events_def on_close_def)
  have 3: "student (run_events print_number ?s [ProcClose (Some 0)]) = returning_program"
    unfolding p by (simp add: compile_start_def)
  have u: "update_student returning_program (best_candidate first_verdict) =
             (set_instructions 0 ''Best.'' returning_program, None)"
    by (simp add: first_verdict_def returning_program_unfolded get_predictor_def)
  have t: "\<forall>req. Request (PostFinalize first_verdict) = Request (PostFinalize req) \<longrightarrow>
             snd (update_student (student (run_events print_number ?s [ProcClose (Some 0)]))
                    (best_candidate req)) = None"
    unfolding 3 using u by simp
  note th = compile_first_signal_decides [OF a l d t,
      of "[Request (PostFinalize second_verdict), ProcClose (Some 1)]"]
  have 1: "compilePromise
     (run_events print_number ?s
        ([ProcClose (Some 0)] @ Request (PostFinalize first_verdict) #
         [Request (PostFinalize second_verdict), ProcClose (Some 1)])) = Resolved"
    using th [THEN conjunct1] by (simp only: verdict.simps)
  have 2: "student (run_events print_number ?s
        ([ProcClose (Some 0)] @ [Request (PostFinalize first_verdict)])) =
      fst (update_student (student (run_events print_number ?s [ProcClose (Some 0)]))
             (best_candidate first_verdict))"
    by (rule th [THEN conjunct2, rule_format, OF refl, THEN conjunct1])
  have 4: "heap (fst (update_student returning_program (best_candidate first_verdict))) =
             [\<lparr>name = ''judge'', instructions = ''Best.''\<rparr>]"
    unfolding u by (simp add: returning_program_unfolded set_instructions_def)
  show ?thesis
    using 1 4 unfolding 2 3 by (rule conjI)
qed

text \<open>
  C2. While \<^verbatim>\<open>compile\<close> waits, the first signal is to decide: a finalize call resolves
  \<^verbatim>\<open>compile\<close>, a failure of the process rejects it. The callback guards its update with
  \<^verbatim>\<open>if (student._predictors[name])\<close>, which a string in the table passes. After an
  evaluate request whose candidate names \<^verbatim>\<open>_predictors\<close> (C4), the table holds the string
  \<^verbatim>\<open>X\<close> under \<^verbatim>\<open>instructions\<close>; the first finalize call, whose candidate names
  \<^verbatim>\<open>instructions\<close>, then throws in the callback before \<^verbatim>\<open>resolve(student)\<close>. The call is
  answered \<^verbatim>\<open>{status: "ok"}\<close> and \<^verbatim>\<open>compile\<close> is still pending; when the process exits
  with code 1 afterwards, \<^verbatim>\<open>compile\<close> rejects: the second signal decides, not the first.
\<close>

theorem first_finalize_leaves_compile_pending:
  "snd (handle print_number
          (run_events print_number
             (compile_start 4 metric_one dataset_inputs returning_program)
             [Request (PostEvaluate [] table_entry)])
          (PostFinalize names_instructions)) = \<lparr>status = 200, body = StatusOk\<rparr> \<and>
   compilePromise
     (run_events print_number (compile_start 4 metric_one dataset_inputs returning_program)
        [Request (PostEvaluate [] table_entry),
         Request (PostFinalize names_instructions)]) = Pending \<and>
   compilePromise
     (run_events print_number (compile_start 4 metric_one dataset_inputs returning_program)
        [Request (PostEvaluate [] table_entry),
         Request (PostFinalize names_instructions),
         ProcClose (Some 1)]) = Rejected (ProcessFailed (Some 1))"
proof -
  let ?s = "compile_start 4 metric_one dataset_inputs returning_program"
  let ?m = "returning_program
              \<lparr>predictors := [(''judge'', PredRef 0), (''instructions'', StrVal ''X'')]\<rparr>"
  have sm: "student ?s = returning_program" "tp_metric ?s = Some metric_one"
    by (simp_all add: compile_start_def)
  have "get_member (student ?s) ''evaluate'' = Fn"
    unfolding sm by (simp add: returning_program_unfolded get_member_def module_methods_def)
  from post_evaluate_student [OF sm(2) this, of print_number "[]" table_entry]
  have "fst (post_evaluate print_number [] ?s table_entry) =
        ?s\<lparr>student := fst (update_candidate_prompts returning_program
                             (candidate table_entry))\<rparr>"
    unfolding sm .
  also have "fst (update_candidate_prompts returning_program (candidate table_entry)) = ?m"
    by (simp add: table_entry_def returning_program_unfolded get_member_def)
  finally have e: "fst (post_evaluate print_number [] ?s table_entry) = ?s\<lparr>student := ?m\<rparr>" .
  have a: "awaiting (?s\<lparr>student := ?m\<rparr>)" by (simp add: awaiting_def compile_start_def)
  have u: "update_student (student (?s\<lparr>student := ?m\<rparr>)) (best_candidate names_instructions) =
             (?m, Some (TypeErrorCreate ''instructions'' ''X''))"
    by (simp add: names_instructions_def returning_program_unfolded get_predictor_def)
  note f = first_finalize_throws [OF a u]
  have r2: "run_events print_number ?s
        [Request (PostEvaluate [] table_entry),
         Request (PostFinalize names_instructions)] =
      fst (post_finalize (?s\<lparr>student := ?m\<rparr>) names_instructions)"
    by (simp add: run_events_def e)
  have r3: "run_events print_number ?s
        [Request (PostEvaluate [] table_entry),
         Request (PostFinalize names_instructions),
         ProcClose (Some 1)] =
      on_close (Some 1) (fst (post_finalize (?s\<lparr>student := ?m\<rparr>) names_instructions))"
    by (simp add: run_events_def e)
  have 1: "snd (handle print_number
          (run_events print_number ?s [Request (PostEvaluate [] table_entry)])
          (PostFinalize names_instructions)) = \<lparr>status = 200, body = StatusOk\<rparr>"
    by (simp add: post_finalize_def)
  have 2: "compilePromise
     (run_events print_number ?s
        [Request (PostEvaluate [] table_entry),
         Request (PostFinalize names_instructions)]) = Pending"
    unfolding r2 f by (simp add: compile_start_def)
  have 3: "compilePromise
     (run_events print_number ?s
        [Request (PostEvaluate [] table_entry),
         Request (PostFinalize names_instructions),
         ProcClose (Some 1)]) = Rejected (ProcessFailed (Some 1))"
    unfolding r3 f by (simp add: compile_start_def on_close_def reject_compile_def)
  from 1 2 3 show ?thesis by (intro conjI)
qed

text \<open>
  C8. With no metric configured on the session, the evaluate and the metric endpoint
  answer with status 500 and the body \<^verbatim>\<open>{error: "Metric not configured on Teleprompt
  instance"}\<close>; the handler returns normally and leaves the session as it was, so the
  requests that follow are served as if this one had not been made.
\<close>

theorem unconfigured_metric_is_an_error_reply:
  assumes "tp_metric s = None"
  shows "handle fmt s (PostEvaluate sched req) =
           (s, \<lparr>status = 500,
                body = ErrorBody ''Metric not configured on Teleprompt instance''\<rparr>) \<and>
         handle fmt s (PostMetric entries) =
           (s, \<lparr>status = 500,
                body = ErrorBody ''Metric not configured on Teleprompt instance''\<rparr>) \<and>
         serve fmt s (PostEvaluate sched req # rest) =
           (fst (serve fmt s rest),
            \<lparr>status = 500,
             body = ErrorBody ''Metric not configured on Teleprompt instance''\<rparr> #
            snd (serve fmt s rest)) \<and>
         serve fmt s (PostMetric entries # rest) =
           (fst (serve fmt s rest),
            \<lparr>status = 500,
             body = ErrorBody ''Metric not configured on Teleprompt instance''\<rparr> #
            snd (serve fmt s rest))"
  using assms
  by (simp add: post_evaluate_def post_metric_def not_configured_def split: prod.splits)

theorem unconfigured_metric_is_an_error_reply_witness:
  "handle print_number (new_session 4 returning_program) (PostEvaluate [] one_ticket) =
     (new_session 4 returning_program,
      \<lparr>status = 500, body = ErrorBody ''Metric not configured on Teleprompt instance''\<rparr>) \<and>
   serve print_number (new_session 4 returning_program)
     [PostMetric [], PostFinalize first_verdict] =
     (new_session 4 returning_program,
      [\<lparr>status = 500, body = ErrorBody ''Metric not configured on Teleprompt instance''\<rparr>,
       \<lparr>status = 200, body = StatusOk\<rparr>])"
proof -
  have m: "tp_metric (new_session 4 returning_program) = None"
    by (simp add: new_session_def)
  have f: "serve print_number (new_session 4 returning_program) [PostFinalize first_verdict] =
             (new_session 4 returning_program, [\<lparr>status = 200, body = StatusOk\<rparr>])"
    by (simp add: post_finalize_def finalize_def new_session_def)
  from unconfigured_metric_is_an_error_reply [OF m, of print_number "[]" one_ticket "[]"
      "[PostFinalize first_verdict]"]
  show ?thesis by (simp only: f fst_conv snd_conv)
qed

text \<open>
  C10. While \<^verbatim>\<open>finalizeResolve\<close> is not set, \<^verbatim>\<open>Teleprompt.finalize\<close> does nothing: it
  returns normally, the session is unchanged, and the finalize endpoint answers
  \<^verbatim>\<open>{status: "ok"}\<close>.
\<close>

theorem finalize_unarmed_is_a_no_op:
  assumes "\<not> finalizeResolve s"
  shows "finalize s bestCandidate' results' = s \<and>
         handle fmt s (PostFinalize req) = (s, \<lparr>status = 200, body = StatusOk\<rparr>)"
  using assms by (simp add: finalize_def post_finalize_def)

theorem finalize_unarmed_is_a_no_op_witness:
  "finalize (new_session 4 returning_program) [(''judge'', ''Best.'')] JNull =
     new_session 4 returning_program \<and>
   handle print_number (new_session 4 returning_program) (PostFinalize first_verdict) =
     (new_session 4 returning_program, \<lparr>status = 200, body = StatusOk\<rparr>)"
proof -
  have u: "\<not> finalizeResolve (new_session 4 returning_program)"
    by (simp add: new_session_def)
  from finalize_unarmed_is_a_no_op [OF u] show ?thesis by blast
qed

end
